theory Spec2Isabelle
  imports Complex_Main
begin

section \<open>Go values used by the auto-claim service\<close>

subsection \<open>float64\<close>

text \<open>
  A Go \<open>float64\<close> is a NaN, an infinity, or a finite binary fraction. The service only
  compares such values (\<open>>=\<close>, \<open>>\<close>, \<open>!=\<close>) and never computes with them, so a
  finite value is represented by the real number it denotes (both zeros denote 0, which
  is how IEEE comparison treats them). Every comparison with a NaN is false, except
  \<open>!=\<close>, which is true.
\<close>

datatype float64 = NaN | NegInf | Finite real | PosInf

fun f64_ge :: "float64 \<Rightarrow> float64 \<Rightarrow> bool" where
  "f64_ge NaN _ = False"
| "f64_ge _ NaN = False"
| "f64_ge PosInf _ = True"
| "f64_ge _ NegInf = True"
| "f64_ge (Finite a) (Finite b) = (b \<le> a)"
| "f64_ge (Finite a) PosInf = False"
| "f64_ge NegInf (Finite b) = False"
| "f64_ge NegInf PosInf = False"

fun f64_gt :: "float64 \<Rightarrow> float64 \<Rightarrow> bool" where
  "f64_gt NaN _ = False"
| "f64_gt _ NaN = False"
| "f64_gt PosInf PosInf = False"
| "f64_gt PosInf _ = True"
| "f64_gt NegInf _ = False"
| "f64_gt (Finite a) (Finite b) = (b < a)"
| "f64_gt (Finite a) PosInf = False"
| "f64_gt (Finite a) NegInf = True"

fun f64_ne :: "float64 \<Rightarrow> float64 \<Rightarrow> bool" where
  "f64_ne NaN _ = True"
| "f64_ne _ NaN = True"
| "f64_ne a b = (a \<noteq> b)"

text \<open>
  The literals \<open>0.07\<close> and \<open>0.10\<close> of the decision maker are compared with a
  \<open>float64\<close> variable, so the compiler rounds them to the nearest \<open>float64\<close>:
  1261007895663739 / 2^54 and 3602879701896397 / 2^55.
\<close>

definition usd_0_07 :: float64 where
  "usd_0_07 = Finite (1261007895663739 / 18014398509481984)"

definition usd_0_10 :: float64 where
  "usd_0_10 = Finite (3602879701896397 / 36028797018963968)"

text \<open>
  \<open>strconv.ParseFloat(s, 64)\<close> belongs to the Go standard library. The functions below
  take it as a parameter: \<open>None\<close> stands for a non-nil \<open>err\<close>, \<open>Some v\<close> for the parsed
  value with a nil \<open>err\<close>.
\<close>

type_synonym parse_float = "string \<Rightarrow> float64 option"

subsection \<open>time.Time and time.Duration\<close>

text \<open>
  A clock reading is a number of nanoseconds; a \<open>time.Duration\<close> is an \<open>int64\<close> number of
  nanoseconds. \<open>time.Since(t)\<close> is the current reading minus \<open>t\<close>, saturated at the ends
  of the \<open>int64\<close> range. The current reading is an argument of every function that
  reads the clock, one argument for each read.
\<close>

type_synonym time = int
type_synonym duration = int

definition maxDuration :: duration where
  "maxDuration = 2 ^ 63 - 1"

definition minDuration :: duration where
  "minDuration = - (2 ^ 63)"

definition Since :: "time \<Rightarrow> time \<Rightarrow> duration" where
  "Since now t =
     (let d = now - t in
      if d > maxDuration then maxDuration
      else if d < minDuration then minDuration
      else d)"

definition Second :: duration where
  "Second = 1000000000"

definition Minute :: duration where
  "Minute = 60 * Second"

subsection \<open>Strings and errors\<close>

text \<open>
  \<open>strings.Contains\<close> is a search for a contiguous run of bytes. \<open>strings.ToLower\<close> is
  given on ASCII text, where it maps \<open>A\<close>..\<open>Z\<close> to \<open>a\<close>..\<open>z\<close> and keeps every other byte.
\<close>

fun HasPrefix :: "string \<Rightarrow> string \<Rightarrow> bool" where
  "HasPrefix s [] = True"
| "HasPrefix [] (c # cs) = False"
| "HasPrefix (x # xs) (c # cs) = (x = c \<and> HasPrefix xs cs)"

fun Contains :: "string \<Rightarrow> string \<Rightarrow> bool" where
  "Contains [] substr = (substr = [])"
| "Contains (x # xs) substr = (HasPrefix (x # xs) substr \<or> Contains xs substr)"

definition lower_byte :: "char \<Rightarrow> char" where
  "lower_byte c =
     (case map_of (zip ''ABCDEFGHIJKLMNOPQRSTUVWXYZ'' ''abcdefghijklmnopqrstuvwxyz'') c of
        Some l \<Rightarrow> l
      | None \<Rightarrow> c)"

definition ToLower :: "string \<Rightarrow> string" where
  "ToLower s = map lower_byte s"

text \<open>
  An \<open>error\<close> value is either created with a message, or made by \<open>fmt.Errorf\<close> from a
  format that ends in \<open>%w\<close>: the text before the verb and the wrapped error.
\<close>

datatype goerror = ErrorNew string | Errorf string goerror

fun Error :: "goerror \<Rightarrow> string" where
  "Error (ErrorNew msg) = msg"
| "Error (Errorf text err) = text @ Error err"

text \<open>The \<open>%d\<close> verb on an \<open>int\<close>.\<close>

function show_nat :: "nat \<Rightarrow> string" where
  "show_nat n =
     (if n < 10 then [''0123456789'' ! n]
      else show_nat (n div 10) @ [''0123456789'' ! (n mod 10)])"
  by pat_completeness auto
termination
  by (relation "measure id") auto

declare show_nat.simps [simp del]

definition show_int :: "int \<Rightarrow> string" where
  "show_int i = (if i < 0 then CHR ''-'' # show_nat (nat (- i)) else show_nat (nat i))"

subsection \<open>models.AirdropNode\<close>

text \<open>
  \<open>ClaimedAt\<close> and \<open>TxHash\<close> are \<open>interface{}\<close> fields filled by the JSON decoder: \<open>INil\<close>
  for a JSON null, otherwise the decoded value (the contents of a decoded array or object
  are never inspected and are left out).
\<close>

datatype iface = INil | IFloat64 float64 | IString string | IBool bool | ISlice | IMap

record Token =
  Name :: string
  Address :: string
  Symbol :: string
  LogoURL :: string
  ImageFlag :: string

record AirdropNode =
  ID :: string
  AmountLpt :: string
  AmountUsd :: string
  AmountSolLpt :: string
  Proofs :: "iface list list"
  ClaimedAt :: iface
  TxHash :: iface
  Token :: Token

section \<open>PriceTracker\<close>

record TokenPriceInfo =
  LastPrice :: float64
  LastChanged :: time
  FirstObserved :: time

text \<open>The tracker's \<open>tokenPriceHistory\<close> map; the mutex guards it and has no other role.\<close>

type_synonym PriceTracker = "string \<rightharpoonup> TokenPriceInfo"

definition NewPriceTracker :: PriceTracker where
  "NewPriceTracker = Map.empty"

definition UpdatePriceData :: "parse_float \<Rightarrow> time \<Rightarrow> AirdropNode \<Rightarrow> PriceTracker \<Rightarrow> PriceTracker" where
  "UpdatePriceData ParseFloat now airdrop p =
     (case ParseFloat (AmountUsd airdrop) of
        None \<Rightarrow> p
      | Some usdValue \<Rightarrow>
          (case p (ID airdrop) of
             None \<Rightarrow>
               p(ID airdrop \<mapsto>
                  \<lparr>LastPrice = usdValue, LastChanged = now, FirstObserved = now\<rparr>)
           | Some priceInfo \<Rightarrow>
               if f64_ne (LastPrice priceInfo) usdValue
               then p(ID airdrop \<mapsto>
                  \<lparr>LastPrice = usdValue, LastChanged = now,
                   FirstObserved = FirstObserved priceInfo\<rparr>)
               else p))"

text \<open>\<open>GetTokenPriceInfo\<close> returns a pointer to a copy, or nil.\<close>

definition GetTokenPriceInfo :: "PriceTracker \<Rightarrow> string \<Rightarrow> TokenPriceInfo option" where
  "GetTokenPriceInfo p tokenID = p tokenID"

text \<open>A sequence of \<open>UpdatePriceData\<close> calls, each with the clock reading it takes.\<close>

fun UpdatePriceData_calls ::
  "parse_float \<Rightarrow> (time \<times> AirdropNode) list \<Rightarrow> PriceTracker \<Rightarrow> PriceTracker" where
  "UpdatePriceData_calls ParseFloat [] p = p"
| "UpdatePriceData_calls ParseFloat ((now, airdrop) # calls) p =
     UpdatePriceData_calls ParseFloat calls (UpdatePriceData ParseFloat now airdrop p)"

section \<open>DecisionMaker\<close>

text \<open>
  The fields of \<open>config.Config\<close> that the service reads; \<open>TokenManager\<close> tells whether
  the pointer is non-nil.
\<close>

record Config =
  MinimumUsdThreshold :: float64
  TokenManager :: bool
  WalletPrivateKey :: string
  CheckInterval :: duration

text \<open>
  \<open>ShouldClaim\<close>: \<open>at_stable\<close> and \<open>at_observed\<close> are the clock readings of the two
  \<open>time.Since\<close> calls. The branch that only logs the tracking message returns false like
  the fall-through.
\<close>

definition ShouldClaim ::
  "parse_float \<Rightarrow> Config \<Rightarrow> time \<Rightarrow> time \<Rightarrow> AirdropNode \<Rightarrow> TokenPriceInfo option \<Rightarrow> bool" where
  "ShouldClaim ParseFloat config at_stable at_observed airdrop priceInfo =
     (case priceInfo of
        None \<Rightarrow> False
      | Some info \<Rightarrow>
          (case ParseFloat (AmountUsd airdrop) of
             None \<Rightarrow> False
           | Some usdValue \<Rightarrow>
               if f64_ge usdValue (MinimumUsdThreshold config) then True
               else if f64_gt usdValue usd_0_07 then
                 (let stableTime = Since at_stable (LastChanged info);
                      observedTime = Since at_observed (FirstObserved info)
                  in if stableTime > 10 * Minute \<and> observedTime > 10 * Minute then True
                     else False)
               else False))"

definition ShouldSellDirectly ::
  "parse_float \<Rightarrow> time \<Rightarrow> time \<Rightarrow> AirdropNode \<Rightarrow> TokenPriceInfo option \<Rightarrow> bool" where
  "ShouldSellDirectly ParseFloat at_stable at_observed airdrop priceInfo =
     (case priceInfo of
        None \<Rightarrow> False
      | Some info \<Rightarrow>
          if ClaimedAt airdrop = INil then False
          else
            (case ParseFloat (AmountUsd airdrop) of
               None \<Rightarrow> False
             | Some usdValue \<Rightarrow>
                 if f64_ge usdValue usd_0_10 then
                   (let stableTime = Since at_stable (LastChanged info);
                        observedTime = Since at_observed (FirstObserved info)
                    in if stableTime \<ge> 10 * Minute \<and> observedTime \<ge> 10 * Minute then True
                       else False)
                 else False))"

section \<open>AirdropStore and AirdropClaimer\<close>

text \<open>The in-memory store: the \<open>airdrops\<close> map, keyed by airdrop ID.\<close>

type_synonym AirdropStore = "string \<rightharpoonup> AirdropNode"

definition NewInMemoryAirdropStore :: AirdropStore where
  "NewInMemoryAirdropStore = Map.empty"

definition SaveAirdrop :: "AirdropNode \<Rightarrow> AirdropStore \<Rightarrow> AirdropStore" where
  "SaveAirdrop airdrop s = s(ID airdrop \<mapsto> airdrop)"

definition HasAirdropWithID :: "AirdropStore \<Rightarrow> string \<Rightarrow> bool" where
  "HasAirdropWithID s i = (s i \<noteq> None)"

definition ClaimAirdrop :: "AirdropStore \<Rightarrow> string \<Rightarrow> goerror + AirdropNode" where
  "ClaimAirdrop s airdropID =
     (case s airdropID of
        None \<Rightarrow> Inl (ErrorNew (''airdrop with ID '' @ airdropID @ '' not found''))
      | Some airdrop \<Rightarrow> Inr airdrop)"

text \<open>
  What the libraries and the network answer during one call of
  \<open>ClaimAirdropByIDWithConfig\<close>, in the order of the calls; \<open>Some err\<close> is a failure.
  \<open>tokenAddressValid\<close> tells whether \<open>MustPublicKeyFromBase58\<close> accepts the token
  address (it panics otherwise). \<open>followUpPanics\<close> tells whether the code after the
  submission panics: \<open>GetTransactionFeesAndEarnings\<close>, which it calls for the statistics
  and the automatic sale, reads \<open>Meta.Fee\<close> of the node's answer with no nil check.
\<close>

record claim_env =
  privateKeyFromBase58 :: "goerror option"
  getBlockhash :: "goerror option"
  tokenAddressValid :: bool
  findAssociatedTokenAddress :: "goerror option"
  parseUint :: "string \<Rightarrow> goerror + nat"
  findMerkleDistributorPDA :: "goerror option"
  findClaimStatusPDA :: "goerror option"
  findBoopPoolAddress :: "goerror option"
  newTransaction :: "goerror option"
  signTransaction :: "goerror option"
  sendTransaction :: "goerror + string"
  followUpPanics :: bool

text \<open>
  The effects of a claim that leave the process. \<open>AfterClaim\<close> stands for everything
  after the transaction is sent (fee statistics, the notification and the automatic
  sale): it ends in \<open>return sig.String(), nil\<close> on every path that does not panic.
\<close>

datatype claim_event =
  FetchBlockhash
  | BuildClaimInstruction nat
  | SendClaimTransaction
  | AfterClaim string

text \<open>A call either returns its results or panics.\<close>

datatype 'a outcome = Returns 'a | Panics

text \<open>The \<open>%T\<close> verb on a decoded JSON value.\<close>

fun type_name :: "iface \<Rightarrow> string" where
  "type_name INil = ''<nil>''"
| "type_name (IFloat64 _) = ''float64''"
| "type_name (IString _) = ''string''"
| "type_name (IBool _) = ''bool''"
| "type_name ISlice = ''[]interface {}''"
| "type_name IMap = ''map[string]interface {}''"

text \<open>
  The conversion of the proofs: the first 32 values of each proof must be \<open>float64\<close>;
  the result is the error of the first value that is not, if any.
\<close>

fun proof_values_error :: "iface list \<Rightarrow> goerror option" where
  "proof_values_error [] = None"
| "proof_values_error (IFloat64 v # vals) = proof_values_error vals"
| "proof_values_error (val # vals) =
     Some (ErrorNew (''invalid proof value type: '' @ type_name val @ '', expected float64''))"

fun proofs_error :: "iface list list \<Rightarrow> goerror option" where
  "proofs_error [] = None"
| "proofs_error (proof # proofs) =
     (case proof_values_error (take 32 proof) of
        Some err \<Rightarrow> Some err
      | None \<Rightarrow> proofs_error proofs)"

definition ClaimAirdropByIDWithConfig ::
  "claim_env \<Rightarrow> Config \<Rightarrow> AirdropStore \<Rightarrow> string \<Rightarrow> (goerror + string) outcome \<times> claim_event list" where
  "ClaimAirdropByIDWithConfig env config store airdropID =
     (case ClaimAirdrop store airdropID of
        Inl err \<Rightarrow> (Returns (Inl (Errorf ''failed to get airdrop: '' err)), [])
      | Inr airdrop \<Rightarrow>
     if ClaimedAt airdrop \<noteq> INil then
       (Returns (Inl (ErrorNew (''airdrop '' @ airdropID @ '' is already claimed''))), [])
     else if WalletPrivateKey config = [] then
       (Returns (Inl (ErrorNew ''wallet private key not configured'')), [])
     else
     (case privateKeyFromBase58 env of
        Some err \<Rightarrow> (Returns (Inl (Errorf ''invalid private key: '' err)), [])
      | None \<Rightarrow>
     (case getBlockhash env of
        Some err \<Rightarrow> (Returns (Inl (Errorf ''failed to get blockhash: '' err)), [FetchBlockhash])
      | None \<Rightarrow>
     if \<not> tokenAddressValid env then (Panics, [FetchBlockhash])
     else
     (case findAssociatedTokenAddress env of
        Some err \<Rightarrow>
          (Returns (Inl (Errorf ''failed to find associated token address: '' err)),
           [FetchBlockhash])
      | None \<Rightarrow>
     (case parseUint env (AmountLpt airdrop) of
        Inl err \<Rightarrow>
          (Returns (Inl (Errorf ''failed to parse token amount: '' err)), [FetchBlockhash])
      | Inr tokenAmount \<Rightarrow>
     (case proofs_error (Proofs airdrop) of
        Some err \<Rightarrow> (Returns (Inl err), [FetchBlockhash])
      | None \<Rightarrow>
     (case findMerkleDistributorPDA env of
        Some err \<Rightarrow>
          (Returns (Inl (Errorf ''failed to find merkle distributor pda: '' err)),
           [FetchBlockhash])
      | None \<Rightarrow>
     (case findClaimStatusPDA env of
        Some err \<Rightarrow>
          (Returns (Inl (Errorf ''failed to find claim status pda: '' err)), [FetchBlockhash])
      | None \<Rightarrow>
     (case findBoopPoolAddress env of
        Some err \<Rightarrow>
          (Returns (Inl (Errorf ''failed to find boop pool address: '' err)), [FetchBlockhash])
      | None \<Rightarrow>
     (case newTransaction env of
        Some err \<Rightarrow>
          (Returns (Inl (Errorf ''failed to create transaction: '' err)),
           [FetchBlockhash, BuildClaimInstruction tokenAmount])
      | None \<Rightarrow>
     (case signTransaction env of
        Some err \<Rightarrow>
          (Returns (Inl (Errorf ''failed to sign transaction: '' err)),
           [FetchBlockhash, BuildClaimInstruction tokenAmount])
      | None \<Rightarrow>
     (case sendTransaction env of
        Inl err \<Rightarrow>
          (Returns (Inl (Errorf ''failed to send transaction: '' err)),
           [FetchBlockhash, BuildClaimInstruction tokenAmount, SendClaimTransaction])
      | Inr sig \<Rightarrow>
          ((if followUpPanics env then Panics else Returns (Inr sig)),
           [FetchBlockhash, BuildClaimInstruction tokenAmount, SendClaimTransaction,
            AfterClaim sig])))))))))))))"

definition ClaimAirdropByID ::
  "claim_env \<Rightarrow> Config \<Rightarrow> AirdropStore \<Rightarrow> string \<Rightarrow> (goerror + string) outcome \<times> claim_event list" where
  "ClaimAirdropByID env config store airdropID =
     ClaimAirdropByIDWithConfig env config store airdropID"

section \<open>SwapService and TokenSeller\<close>

text \<open>
  What the aggregator, the blockhash cache, the transaction library and the RPC node
  answer during one attempt of the retry loop; \<open>Some err\<close> is a failure. The answer of
  \<open>GetSwapTransactionWithOptions\<close> may depend on the \<open>useSharedAccounts\<close> argument.
\<close>

record attempt_env =
  getSwapQuote :: "goerror option"
  getSwapTransactionWithOptions :: "bool \<Rightarrow> goerror option"
  getLatestBlockhash :: "goerror option"
  transactionFromBase64 :: "goerror option"
  sign :: "goerror option"
  sendTransactionWithOpts :: "goerror + string"

text \<open>
  The calls that leave the process and the sleeps, in order. Each call carries the
  number of the attempt that makes it; the swap-transaction request also carries the
  \<open>useSharedAccounts\<close> flag it is made with.
\<close>

datatype swap_event =
  GetSwapQuote int
  | GetSwapTransaction int bool
  | GetBlockhash int
  | SendTransaction int
  | Sleep duration

definition shared_accounts_unsupported :: string where
  "shared_accounts_unsupported = ''Simple AMMs are not supported with shared accounts''"

text \<open>
  The body of the retry loop, up to the \<open>time.Sleep\<close> and \<open>continue\<close> that every failure
  ends with: the signature or the new \<open>lastErr\<close>, the new \<open>useSharedAccounts\<close>, and the
  calls made.
\<close>

definition swap_attempt ::
  "attempt_env \<Rightarrow> int \<Rightarrow> bool \<Rightarrow> (goerror + string) \<times> bool \<times> swap_event list" where
  "swap_attempt r attempt useSharedAccounts =
     (case getSwapQuote r of
        Some err \<Rightarrow>
          (Inl (Errorf ''failed to get swap quote: '' err), useSharedAccounts,
           [GetSwapQuote attempt])
      | None \<Rightarrow>
     (case getSwapTransactionWithOptions r useSharedAccounts of
        Some err \<Rightarrow>
          (Inl (Errorf ''failed to get swap transaction: '' err),
           (if Contains (Error err) shared_accounts_unsupported then False
            else useSharedAccounts),
           [GetSwapQuote attempt, GetSwapTransaction attempt useSharedAccounts])
      | None \<Rightarrow>
     (case getLatestBlockhash r of
        Some err \<Rightarrow>
          (Inl (Errorf ''failed to get latest blockhash: '' err), useSharedAccounts,
           [GetSwapQuote attempt, GetSwapTransaction attempt useSharedAccounts,
            GetBlockhash attempt])
      | None \<Rightarrow>
     (case transactionFromBase64 r of
        Some err \<Rightarrow>
          (Inl (Errorf ''failed to decode transaction: '' err), useSharedAccounts,
           [GetSwapQuote attempt, GetSwapTransaction attempt useSharedAccounts,
            GetBlockhash attempt])
      | None \<Rightarrow>
     (case sign r of
        Some err \<Rightarrow>
          (Inl (Errorf ''failed to sign transaction: '' err), useSharedAccounts,
           [GetSwapQuote attempt, GetSwapTransaction attempt useSharedAccounts,
            GetBlockhash attempt])
      | None \<Rightarrow>
     (case sendTransactionWithOpts r of
        Inl err \<Rightarrow>
          (Inl (Errorf ''failed to send transaction: '' err), useSharedAccounts,
           [GetSwapQuote attempt, GetSwapTransaction attempt useSharedAccounts,
            GetBlockhash attempt, SendTransaction attempt])
      | Inr sig \<Rightarrow>
          (Inr sig, useSharedAccounts,
           [GetSwapQuote attempt, GetSwapTransaction attempt useSharedAccounts,
            GetBlockhash attempt, SendTransaction attempt])))))))"

text \<open>
  \<open>fmt.Errorf("all %d attempts failed to swap token: %w", maxRetries, lastErr)\<close>; a nil
  \<open>lastErr\<close> (no attempt was made) is printed as \<open>%!w(<nil>)\<close>.
\<close>

definition all_attempts_failed :: "int \<Rightarrow> goerror option \<Rightarrow> goerror" where
  "all_attempts_failed maxRetries lastErr =
     (case lastErr of
        Some err \<Rightarrow>
          Errorf (''all '' @ show_int maxRetries @ '' attempts failed to swap token: '') err
      | None \<Rightarrow>
          ErrorNew (''all '' @ show_int maxRetries @
                    '' attempts failed to swap token: %!w(<nil>)''))"

text \<open>
  The loop \<open>for attempt := 1; attempt <= maxRetries; attempt++\<close>, entered at \<open>attempt\<close>
  with the current \<open>useSharedAccounts\<close> and \<open>lastErr\<close>; \<open>env\<close> gives the answers of each
  attempt. The counter is an unbounded integer: Go's \<open>int\<close> does not wrap below
  \<open>maxRetries = 2^63 - 1\<close>, and \<open>SwapTokenForSol\<close> passes 10.
\<close>

function swap_loop ::
  "(int \<Rightarrow> attempt_env) \<Rightarrow> int \<Rightarrow> duration \<Rightarrow> int \<Rightarrow> bool \<Rightarrow> goerror option \<Rightarrow>
   (goerror + string) \<times> swap_event list" where
  "swap_loop env maxRetries retryDelay attempt useSharedAccounts lastErr =
     (if attempt \<le> maxRetries then
        (case swap_attempt (env attempt) attempt useSharedAccounts of
           (Inr sig, _, calls) \<Rightarrow> (Inr sig, calls)
         | (Inl err, useSharedAccounts', calls) \<Rightarrow>
             (case swap_loop env maxRetries retryDelay (attempt + 1) useSharedAccounts'
                     (Some err) of
                (result, rest) \<Rightarrow> (result, calls @ Sleep retryDelay # rest)))
      else (Inl (all_attempts_failed maxRetries lastErr), []))"
  by pat_completeness auto
termination
  by (relation "measure (\<lambda>(env, maxRetries, retryDelay, attempt, u, e).
        nat (maxRetries + 1 - attempt))") auto

declare swap_loop.simps [simp del]

text \<open>\<open>walletKey\<close> is the answer of \<open>solana.PrivateKeyFromBase58\<close> for the private key.\<close>

definition GetWallet :: "goerror option \<Rightarrow> string \<Rightarrow> goerror option" where
  "GetWallet walletKey privateKeyBase58 =
     (if privateKeyBase58 = [] then Some (ErrorNew ''private key not provided'')
      else (case walletKey of
              Some err \<Rightarrow> Some (Errorf ''invalid private key: '' err)
            | None \<Rightarrow> None))"

definition SwapTokenForSolWithRetries ::
  "goerror option \<Rightarrow> (int \<Rightarrow> attempt_env) \<Rightarrow> string \<Rightarrow> int \<Rightarrow> duration \<Rightarrow>
   (goerror + string) \<times> swap_event list" where
  "SwapTokenForSolWithRetries walletKey env privateKeyBase58 maxRetries retryDelay =
     (case GetWallet walletKey privateKeyBase58 of
        Some err \<Rightarrow> (Inl (Errorf ''failed to get wallet: '' err), [])
      | None \<Rightarrow> swap_loop env maxRetries retryDelay 1 True None)"

definition SwapTokenForSol ::
  "goerror option \<Rightarrow> (int \<Rightarrow> attempt_env) \<Rightarrow> string \<Rightarrow> (goerror + string) \<times> swap_event list" where
  "SwapTokenForSol walletKey env privateKeyBase58 =
     SwapTokenForSolWithRetries walletKey env privateKeyBase58 10 (3 * Second)"

text \<open>
  The answer of \<open>solana.GetTransactionFeesAndEarnings\<close> for a submitted swap: an error of
  the node, the fee and the earnings, or a panic (the function reads \<open>Meta.Fee\<close> of the
  node's answer with no nil check).
\<close>

datatype fee_lookup = LookupFails goerror | LookupReturns nat nat | LookupPanics

text \<open>What \<open>SellToken\<close> does around the swap, in order.\<close>

datatype sale_step =
  HandleSellError
  | Settle duration
  | FeesAndEarnings
  | HandleSuccessfulSaleWithEstimate
  | HandleSuccessfulSale nat nat

text \<open>
  \<open>SellToken\<close> returns the error of the swap, or nil once a swap is submitted, whatever
  the fee lookup answers, unless the lookup panics. \<open>ParseUint\<close> is the answer of
  \<open>strconv.ParseUint\<close> for the token amount. The result comes with the calls of the swap
  and with the steps around it.
\<close>

definition SellToken ::
  "(string \<Rightarrow> goerror + nat) \<Rightarrow> goerror option \<Rightarrow> (int \<Rightarrow> attempt_env) \<Rightarrow> fee_lookup \<Rightarrow>
   Config \<Rightarrow> AirdropNode \<Rightarrow> goerror option outcome \<times> swap_event list \<times> sale_step list" where
  "SellToken ParseUint walletKey env lookup config airdrop =
     (case ParseUint (AmountLpt airdrop) of
        Inl err \<Rightarrow> (Returns (Some err), [], [])
      | Inr tokenAmount \<Rightarrow>
          (case SwapTokenForSol walletKey env (WalletPrivateKey config) of
             (Inl err, calls) \<Rightarrow> (Returns (Some err), calls, [HandleSellError])
           | (Inr swapSig, calls) \<Rightarrow>
               (case lookup of
                  LookupFails err \<Rightarrow>
                    (Returns None, calls,
                     [Settle (2 * Second), FeesAndEarnings, HandleSuccessfulSaleWithEstimate])
                | LookupReturns swapFees swapEarnings \<Rightarrow>
                    (Returns None, calls,
                     [Settle (2 * Second), FeesAndEarnings,
                      HandleSuccessfulSale swapFees swapEarnings])
                | LookupPanics \<Rightarrow>
                    (Panics, calls, [Settle (2 * Second), FeesAndEarnings]))))"

text \<open>
  The course of the loop as long as no attempt succeeds: the value of
  \<open>useSharedAccounts\<close> after the first \<open>n\<close> attempts, and the \<open>n\<close>-th attempt (\<open>n \<ge> 1\<close>),
  which runs with the value left by the attempts before it.
\<close>

fun useSharedAccounts_after :: "(int \<Rightarrow> attempt_env) \<Rightarrow> nat \<Rightarrow> bool" where
  "useSharedAccounts_after env 0 = True"
| "useSharedAccounts_after env (Suc n) =
     fst (snd (swap_attempt (env (int (Suc n))) (int (Suc n)) (useSharedAccounts_after env n)))"

definition nth_attempt ::
  "(int \<Rightarrow> attempt_env) \<Rightarrow> nat \<Rightarrow> (goerror + string) \<times> bool \<times> swap_event list" where
  "nth_attempt env n =
     swap_attempt (env (int n)) (int n) (useSharedAccounts_after env (n - 1))"

text \<open>
  Reading a trace: the number of attempts started (each starts with its quote request),
  and the attempt a call belongs to.
\<close>

fun attempts_made :: "swap_event list \<Rightarrow> nat" where
  "attempts_made [] = 0"
| "attempts_made (GetSwapQuote k # es) = Suc (attempts_made es)"
| "attempts_made (e # es) = attempts_made es"

fun attempt_of :: "swap_event \<Rightarrow> int option" where
  "attempt_of (GetSwapQuote k) = Some k"
| "attempt_of (GetSwapTransaction k b) = Some k"
| "attempt_of (GetBlockhash k) = Some k"
| "attempt_of (SendTransaction k) = Some k"
| "attempt_of (Sleep d) = None"

section \<open>The auto-claim service\<close>

text \<open>
  The mutable fields of \<open>Service\<close>: the \<open>claimedAirdrops\<close> map, the price tracker and
  \<open>lastTokenRefresh\<close>, where \<open>None\<close> is the zero \<open>time.Time\<close> the service starts with.
  Reading a missing key of a \<open>map[string]bool\<close> gives \<open>false\<close>.
\<close>

record Service =
  claimedAirdrops :: "string \<rightharpoonup> bool"
  priceTracker :: PriceTracker
  lastTokenRefresh :: "time option"

definition NewService :: Service where
  "NewService =
     \<lparr>claimedAirdrops = Map.empty, priceTracker = NewPriceTracker, lastTokenRefresh = None\<rparr>"

definition claimed :: "Service \<Rightarrow> string \<Rightarrow> bool" where
  "claimed s i = (case claimedAirdrops s i of Some b \<Rightarrow> b | None \<Rightarrow> False)"

definition mark_claimed :: "string \<Rightarrow> Service \<Rightarrow> Service" where
  "mark_claimed i s = s\<lparr>claimedAirdrops := (claimedAirdrops s)(i \<mapsto> True)\<rparr>"

text \<open>
  The answers \<open>refreshAuthToken\<close> gets from outside: \<open>at_check\<close> is the clock reading of
  its \<open>time.Since\<close>, \<open>refresh\<close> the result of \<open>config.RefreshAuthToken()\<close> should it be
  called, \<open>at_done\<close> the reading of \<open>time.Now()\<close> after a successful refresh.
\<close>

record refresh_env =
  at_check :: time
  refresh :: "goerror option"
  at_done :: time

text \<open>
  What the service does outside its own state, in order: the scan, each call of
  \<open>ClaimAirdropByID\<close>, each call of \<open>config.RefreshAuthToken\<close> (with the answers it got),
  each \<open>SellToken\<close> goroutine started, and each sleep.
\<close>

datatype service_event =
  Scanned
  | ClaimCalled string
  | RefreshCalled refresh_env
  | SellStarted AirdropNode
  | Slept duration

text \<open>The test applied to the text of scan, claim and sale errors.\<close>

definition auth_related :: "goerror \<Rightarrow> bool" where
  "auth_related err =
     (Contains (ToLower (Error err)) ''unauthorized'' \<or>
      Contains (ToLower (Error err)) ''auth'' \<or>
      Contains (ToLower (Error err)) ''token'')"

definition refreshAuthToken ::
  "Config \<Rightarrow> refresh_env \<Rightarrow> Service \<Rightarrow> Service \<times> service_event list" where
  "refreshAuthToken config env s =
     (if \<not> TokenManager config \<or> WalletPrivateKey config = [] then (s, [])
      else if (case lastTokenRefresh s of
                 None \<Rightarrow> False
               | Some t \<Rightarrow> Since (at_check env) t < 30 * Minute) then (s, [])
      else (case refresh env of
              Some err \<Rightarrow> (s, [RefreshCalled env])
            | None \<Rightarrow> (s\<lparr>lastTokenRefresh := Some (at_done env)\<rparr>, [RefreshCalled env])))"

definition handleScanError :: "goerror \<Rightarrow> service_event list" where
  "handleScanError err =
     (if Contains (Error err) ''unexpected EOF'' \<or>
         Contains (Error err) ''connection refused'' \<or>
         Contains (Error err) ''i/o timeout''
      then [Slept (3 * Second)]
      else [Slept (30 * Second)])"

definition permanentErrors :: "string list" where
  "permanentErrors =
     [''airdrop is already claimed'', ''invalid token amount'',
      ''failed to parse token amount'', ''failed to find merkle distributor'']"

definition IsPermanentClaimError :: "goerror \<Rightarrow> bool" where
  "IsPermanentClaimError err =
     list_ex (\<lambda>msg. Contains (ToLower (Error err)) (ToLower msg)) permanentErrors"

definition handleClaimResult :: "AirdropNode \<Rightarrow> goerror + string \<Rightarrow> Service \<Rightarrow> Service" where
  "handleClaimResult airdrop result s =
     (case result of
        Inl err \<Rightarrow> if IsPermanentClaimError err then mark_claimed (ID airdrop) s else s
      | Inr txHash \<Rightarrow> mark_claimed (ID airdrop) s)"

definition isAlreadyClaimed :: "AirdropNode \<Rightarrow> Service \<Rightarrow> bool \<times> Service" where
  "isAlreadyClaimed airdrop s =
     (if claimed s (ID airdrop) then (True, s)
      else if ClaimedAt airdrop \<noteq> INil then (True, mark_claimed (ID airdrop) s)
      else (False, s))"

text \<open>
  The clock readings taken while one airdrop of the scan is processed: by
  \<open>UpdatePriceData\<close>, by the two \<open>time.Since\<close> of \<open>ShouldClaim\<close> and by the two of
  \<open>ShouldSellDirectly\<close>.
\<close>

record item_clock =
  at_update :: time
  at_claim_stable :: time
  at_claim_observed :: time
  at_sell_stable :: time
  at_sell_observed :: time

text \<open>
  \<open>handleStableTokenSale\<close> starts the goroutine that calls \<open>SellToken\<close>; what the
  goroutine does when the sale returns is \<open>sale_finished\<close> below.
\<close>

definition handleStableTokenSale ::
  "parse_float \<Rightarrow> item_clock \<Rightarrow> AirdropNode \<Rightarrow> TokenPriceInfo option \<Rightarrow> Service \<Rightarrow>
   service_event list" where
  "handleStableTokenSale ParseFloat clock airdrop priceInfo s =
     (if ClaimedAt airdrop = INil \<or> priceInfo = None then []
      else if ShouldSellDirectly ParseFloat (at_sell_stable clock) (at_sell_observed clock)
                airdrop priceInfo
      then (if \<not> claimed s (ID airdrop) then [SellStarted airdrop] else [])
      else [])"

fun processAndFilterAirdrops ::
  "parse_float \<Rightarrow> Config \<Rightarrow> (item_clock \<times> AirdropNode) list \<Rightarrow> Service \<Rightarrow>
   Service \<times> AirdropNode list \<times> service_event list" where
  "processAndFilterAirdrops ParseFloat config [] s = (s, [], [])"
| "processAndFilterAirdrops ParseFloat config ((clock, airdrop) # airdrops) s =
     (case isAlreadyClaimed airdrop s of
        (True, s1) \<Rightarrow> processAndFilterAirdrops ParseFloat config airdrops s1
      | (False, s1) \<Rightarrow>
          (let s2 = s1\<lparr>priceTracker :=
                        UpdatePriceData ParseFloat (at_update clock) airdrop (priceTracker s1)\<rparr>;
               priceInfo = GetTokenPriceInfo (priceTracker s2) (ID airdrop)
           in if ShouldClaim ParseFloat config (at_claim_stable clock) (at_claim_observed clock)
                   airdrop priceInfo
              then (case processAndFilterAirdrops ParseFloat config airdrops s2 of
                      (s3, filteredAirdrops, events) \<Rightarrow>
                        (s3, airdrop # filteredAirdrops, events))
              else (case processAndFilterAirdrops ParseFloat config airdrops s2 of
                      (s3, filteredAirdrops, events) \<Rightarrow>
                        (s3, filteredAirdrops,
                         handleStableTokenSale ParseFloat clock airdrop priceInfo s2 @ events))))"

text \<open>
  One cycle's answers from outside: the result of \<open>ScanAirdrops\<close> (each airdrop with
  the clock readings of its processing), the results of the first call of
  \<open>ClaimAirdropByID\<close> and of its retry, and the answers for \<open>refreshAuthToken\<close>.
\<close>

record cycle_env =
  scan :: "goerror + (item_clock \<times> AirdropNode) list"
  claim :: "goerror + string"
  claim_retry :: "goerror + string"
  token_refresh :: refresh_env

text \<open>
  The loop over the filtered airdrops: it skips those \<open>isAlreadyClaimed\<close> reports,
  claims the first other one, sleeps 60 seconds and breaks.
\<close>

fun claim_first ::
  "Config \<Rightarrow> cycle_env \<Rightarrow> AirdropNode list \<Rightarrow> Service \<Rightarrow> Service \<times> service_event list" where
  "claim_first config env [] s = (s, [])"
| "claim_first config env (airdrop # airdrops) s =
     (case isAlreadyClaimed airdrop s of
        (True, s1) \<Rightarrow> claim_first config env airdrops s1
      | (False, s1) \<Rightarrow>
          (case claim env of
             Inl err \<Rightarrow>
               if auth_related err then
                 (case refreshAuthToken config (token_refresh env) s1 of
                    (s2, events) \<Rightarrow>
                      (handleClaimResult airdrop (claim_retry env) s2,
                       ClaimCalled (ID airdrop) # events @
                       [ClaimCalled (ID airdrop), Slept (60 * Second)]))
               else (handleClaimResult airdrop (Inl err) s1,
                     [ClaimCalled (ID airdrop), Slept (60 * Second)])
           | Inr txHash \<Rightarrow>
               (handleClaimResult airdrop (Inr txHash) s1,
                [ClaimCalled (ID airdrop), Slept (60 * Second)])))"

definition processAirdrops ::
  "parse_float \<Rightarrow> Config \<Rightarrow> cycle_env \<Rightarrow> Service \<Rightarrow> Service \<times> service_event list" where
  "processAirdrops ParseFloat config env s =
     (case scan env of
        Inl err \<Rightarrow>
          (if auth_related err then
             (case refreshAuthToken config (token_refresh env) s of
                (s1, events) \<Rightarrow> (s1, Scanned # events @ handleScanError err))
           else (s, Scanned # handleScanError err))
      | Inr valuableAirdrops \<Rightarrow>
          (case processAndFilterAirdrops ParseFloat config valuableAirdrops s of
             (s1, filteredAirdrops, sales) \<Rightarrow>
               (case claim_first config env filteredAirdrops s1 of
                  (s2, events) \<Rightarrow> (s2, Scanned # sales @ events))))"

text \<open>
  The end of a \<open>SellToken\<close> goroutine: a nil error marks the airdrop, an
  authentication error calls \<open>refreshAuthToken\<close>.
\<close>

definition sale_finished ::
  "Config \<Rightarrow> AirdropNode \<Rightarrow> goerror option \<Rightarrow> refresh_env \<Rightarrow> Service \<Rightarrow>
   Service \<times> service_event list" where
  "sale_finished config airdropCopy err env s =
     (case err of
        None \<Rightarrow> (mark_claimed (ID airdropCopy) s, [])
      | Some e \<Rightarrow> if auth_related e then refreshAuthToken config env s else (s, []))"

text \<open>
  The service over time, as far as it has run: the scan cycles of \<open>Start\<close>, each
  followed by the sleep of \<open>CheckInterval\<close>, and sale goroutines finishing between
  them. (\<open>claimAirdrop\<close> has no caller and is left out.)
\<close>

datatype operation =
  Cycle cycle_env
  | SaleFinished AirdropNode "goerror option" refresh_env

fun run ::
  "parse_float \<Rightarrow> Config \<Rightarrow> operation list \<Rightarrow> Service \<Rightarrow> Service \<times> service_event list" where
  "run ParseFloat config [] s = (s, [])"
| "run ParseFloat config (Cycle env # ops) s =
     (case processAirdrops ParseFloat config env s of
        (s1, events) \<Rightarrow>
          (case run ParseFloat config ops s1 of
             (s2, later) \<Rightarrow> (s2, events @ Slept (CheckInterval config) # later)))"
| "run ParseFloat config (SaleFinished airdrop err env # ops) s =
     (case sale_finished config airdrop err env s of
        (s1, events) \<Rightarrow>
          (case run ParseFloat config ops s1 of
             (s2, later) \<Rightarrow> (s2, events @ later)))"

text \<open>
  Reading a trace: the airdrop IDs of the \<open>ClaimAirdropByID\<close> calls, in order, and the
  time recorded by the last successful token refresh, if any.
\<close>

fun claim_calls :: "service_event list \<Rightarrow> string list" where
  "claim_calls [] = []"
| "claim_calls (ClaimCalled i # events) = i # claim_calls events"
| "claim_calls (e # events) = claim_calls events"

fun last_refreshed :: "service_event list \<Rightarrow> time option" where
  "last_refreshed [] = None"
| "last_refreshed (RefreshCalled r # events) =
     (case last_refreshed events of
        Some t \<Rightarrow> Some t
      | None \<Rightarrow> (case refresh r of None \<Rightarrow> Some (at_done r) | Some err \<Rightarrow> None))"
| "last_refreshed (e # events) = last_refreshed events"

section \<open>Example inputs\<close>

text \<open>
  A finite excerpt of \<open>strconv.ParseFloat\<close>: the nearest \<open>float64\<close> of three decimal
  strings; every other string of the examples is unparseable.
\<close>

definition ParseFloat_excerpt :: parse_float where
  "ParseFloat_excerpt s =
     (if s = ''0.20'' then Some (Finite (3602879701896397 / 18014398509481984))
      else if s = ''0.30'' then Some (Finite (5404319552844595 / 18014398509481984))
      else if s = ''0.75'' then Some (Finite (3 / 4))
      else None)"

definition example_token :: Token where
  "example_token =
     \<lparr>Name = ''Boop Coin'', Address = ''BuNonfvszzm6dJuzigNbde7qGNmcSYxT64erw3Wboop'',
      Symbol = ''BOOP'', LogoURL = [], ImageFlag = []\<rparr>"

definition example_airdrop :: "string \<Rightarrow> string \<Rightarrow> iface \<Rightarrow> AirdropNode" where
  "example_airdrop i usd claimedAt =
     \<lparr>ID = i, AmountLpt = ''1000000'', AmountUsd = usd, AmountSolLpt = ''0'',
      Proofs = [], ClaimedAt = claimedAt, TxHash = INil, Token = example_token\<rparr>"

definition example_config :: Config where
  "example_config =
     \<lparr>MinimumUsdThreshold = Finite (1 / 2), TokenManager = True,
      WalletPrivateKey = ''key'', CheckInterval = Minute\<rparr>"

definition example_claim_env :: claim_env where
  "example_claim_env =
     \<lparr>privateKeyFromBase58 = None, getBlockhash = None, tokenAddressValid = True,
      findAssociatedTokenAddress = None, parseUint = (\<lambda>s. Inr 1000000),
      findMerkleDistributorPDA = None, findClaimStatusPDA = None,
      findBoopPoolAddress = None, newTransaction = None, signTransaction = None,
      sendTransaction = Inr ''5sig'', followUpPanics = False\<rparr>"

text \<open>
  A venue that rejects shared accounts, with one timeout of the quote service on the
  second attempt; and a quote service that is down.
\<close>

definition venue_env :: "int \<Rightarrow> attempt_env" where
  "venue_env k =
     \<lparr>getSwapQuote = (if k = 2 then Some (ErrorNew ''i/o timeout'') else None),
      getSwapTransactionWithOptions =
        (\<lambda>shared. if shared
           then Some (ErrorNew ''400: Simple AMMs are not supported with shared accounts'')
           else None),
      getLatestBlockhash = None, transactionFromBase64 = None, sign = None,
      sendTransactionWithOpts = Inr ''3swapsig''\<rparr>"

definition offline_env :: "int \<Rightarrow> attempt_env" where
  "offline_env k =
     \<lparr>getSwapQuote = Some (ErrorNew ''i/o timeout''),
      getSwapTransactionWithOptions = (\<lambda>shared. None),
      getLatestBlockhash = None, transactionFromBase64 = None, sign = None,
      sendTransactionWithOpts = Inr ''3swapsig''\<rparr>"

text \<open>
  A service that has tracked airdrop A1 at 0.20 USD since time 0; a clock that reads
  \<open>t\<close> throughout the processing of one airdrop; a cycle whose scan returns the given
  airdrops and whose claim succeeds; a cycle whose scan is refused, with a token
  service that is down.
\<close>

definition tracking_service :: Service where
  "tracking_service =
     \<lparr>claimedAirdrops = Map.empty,
      priceTracker = [''A1'' \<mapsto> \<lparr>LastPrice = Finite (3602879701896397 / 18014398509481984),
                                LastChanged = 0, FirstObserved = 0\<rparr>],
      lastTokenRefresh = None\<rparr>"

definition clock_at :: "time \<Rightarrow> item_clock" where
  "clock_at t =
     \<lparr>at_update = t, at_claim_stable = t, at_claim_observed = t,
      at_sell_stable = t, at_sell_observed = t\<rparr>"

definition scan_cycle :: "time \<Rightarrow> AirdropNode list \<Rightarrow> cycle_env" where
  "scan_cycle t airdrops =
     \<lparr>scan = Inr (map (\<lambda>a. (clock_at t, a)) airdrops),
      claim = Inr ''4claimsig'', claim_retry = Inr ''4claimsig'',
      token_refresh = \<lparr>at_check = t, refresh = None, at_done = t\<rparr>\<rparr>"

definition refused_error :: goerror where
  "refused_error =
     Errorf ''failed to fetch airdrops: ''
       (ErrorNew ''unexpected status code: 401, response: Unauthorized'')"

definition refused_cycle :: "time \<Rightarrow> cycle_env" where
  "refused_cycle t =
     \<lparr>scan = Inl refused_error,
      claim = Inr ''4claimsig'', claim_retry = Inr ''4claimsig'',
      token_refresh =
        \<lparr>at_check = t, refresh = Some (ErrorNew ''privy: service unavailable''),
         at_done = t\<rparr>\<rparr>"

text \<open>
  A cycle whose scan succeeds, whose first claim is refused because the token has
  expired, and whose token refresh and retried claim succeed.
\<close>

definition expired_error :: goerror where
  "expired_error = ErrorNew ''failed to send transaction: Auth token expired''"

definition expired_cycle :: "time \<Rightarrow> AirdropNode list \<Rightarrow> cycle_env" where
  "expired_cycle t airdrops =
     \<lparr>scan = Inr (map (\<lambda>a. (clock_at t, a)) airdrops),
      claim = Inl expired_error, claim_retry = Inr ''4claimsig'',
      token_refresh = \<lparr>at_check = t, refresh = None, at_done = t\<rparr>\<rparr>"

section \<open>Properties of the decision maker\<close>

lemma Since_gt_iff:
  "minDuration \<le> d \<Longrightarrow> d < maxDuration \<Longrightarrow> (Since now t > d) = (now - t > d)"
  by (auto simp: Since_def Let_def maxDuration_def minDuration_def)

lemma Since_ge_iff:
  "minDuration < d \<Longrightarrow> d \<le> maxDuration \<Longrightarrow> (Since now t \<ge> d) = (now - t \<ge> d)"
  by (auto simp: Since_def Let_def maxDuration_def minDuration_def)

lemma ten_minutes_bounds:
  "10 * Minute < maxDuration" "minDuration < 10 * Minute" "10 * Minute = 600000000000"
  by (simp_all add: Minute_def Second_def maxDuration_def minDuration_def)

lemma f64_gt_not_ge: "f64_gt b a \<Longrightarrow> \<not> f64_ge a b"
  by (cases a; cases b) auto

lemma stable_gt_ten_minutes:
  "(Since now t > 10 * Minute) = (now - t > 10 * Minute)"
  by (rule Since_gt_iff) (simp_all add: Minute_def Second_def maxDuration_def minDuration_def)

lemma stable_ge_ten_minutes:
  "(Since now t \<ge> 10 * Minute) = (now - t \<ge> 10 * Minute)"
  by (rule Since_ge_iff) (simp_all add: Minute_def Second_def maxDuration_def minDuration_def)

text \<open>
  C2. For an airdrop with a price observation and a parseable amountUsd with
  0.07 < amountUsd < minimumUsdThreshold, ShouldClaim returns true if and only if the
  time since lastChanged and the time since firstObserved both exceed 10 minutes; the
  comparison is strict, so it returns false when either duration is exactly 10 minutes.
\<close>

theorem ShouldClaim_stability_tier:
  assumes "ParseFloat (AmountUsd airdrop) = Some usdValue"
    and "f64_gt usdValue usd_0_07"
    and "f64_gt (MinimumUsdThreshold config) usdValue"
  shows "(ShouldClaim ParseFloat config at_stable at_observed airdrop (Some info) =
            (at_stable - LastChanged info > 10 * Minute \<and>
             at_observed - FirstObserved info > 10 * Minute)) \<and>
         (at_stable - LastChanged info = 10 * Minute \<or>
          at_observed - FirstObserved info = 10 * Minute \<longrightarrow>
            \<not> ShouldClaim ParseFloat config at_stable at_observed airdrop (Some info))"
proof -
  have below: "\<not> f64_ge usdValue (MinimumUsdThreshold config)"
    using assms(3) by (rule f64_gt_not_ge)
  have eq: "ShouldClaim ParseFloat config at_stable at_observed airdrop (Some info) =
            (at_stable - LastChanged info > 10 * Minute \<and>
             at_observed - FirstObserved info > 10 * Minute)"
    using assms(1,2) below
    by (simp add: ShouldClaim_def Let_def stable_gt_ten_minutes)
  show ?thesis
    unfolding eq by auto
qed

theorem ShouldClaim_stability_tier_witness:
  "ParseFloat_excerpt (AmountUsd (example_airdrop ''A1'' ''0.20'' INil)) =
      Some (Finite (3602879701896397 / 18014398509481984)) \<and>
   f64_gt (Finite (3602879701896397 / 18014398509481984)) usd_0_07 \<and>
   f64_gt (MinimumUsdThreshold example_config) (Finite (3602879701896397 / 18014398509481984)) \<and>
   \<not> ShouldClaim ParseFloat_excerpt example_config (5 * Minute) (5 * Minute)
       (example_airdrop ''A1'' ''0.20'' INil)
       (Some \<lparr>LastPrice = Finite (3602879701896397 / 18014398509481984),
              LastChanged = 0, FirstObserved = 0\<rparr>) \<and>
   \<not> ShouldClaim ParseFloat_excerpt example_config (10 * Minute) (10 * Minute)
       (example_airdrop ''A1'' ''0.20'' INil)
       (Some \<lparr>LastPrice = Finite (3602879701896397 / 18014398509481984),
              LastChanged = 0, FirstObserved = 0\<rparr>) \<and>
   ShouldClaim ParseFloat_excerpt example_config (12 * Minute) (12 * Minute)
       (example_airdrop ''A1'' ''0.20'' INil)
       (Some \<lparr>LastPrice = Finite (3602879701896397 / 18014398509481984),
              LastChanged = 0, FirstObserved = 0\<rparr>)"
proof -
  let ?v = "Finite (3602879701896397 / 18014398509481984)"
  let ?a = "example_airdrop ''A1'' ''0.20'' INil"
  let ?i = "\<lparr>LastPrice = ?v, LastChanged = 0, FirstObserved = 0\<rparr>"
  have h1: "ParseFloat_excerpt (AmountUsd ?a) = Some ?v"
    by (simp add: ParseFloat_excerpt_def example_airdrop_def)
  have h2: "f64_gt ?v usd_0_07"
    by (simp add: usd_0_07_def)
  have h3: "f64_gt (MinimumUsdThreshold example_config) ?v"
    by (simp add: example_config_def)
  show ?thesis
    using h1 h2 h3
      ShouldClaim_stability_tier [where ParseFloat = ParseFloat_excerpt and airdrop = ?a
        and config = example_config and at_stable = "5 * Minute" and at_observed = "5 * Minute"
        and info = ?i, OF h1 h2 h3]
      ShouldClaim_stability_tier [where ParseFloat = ParseFloat_excerpt and airdrop = ?a
        and config = example_config and at_stable = "10 * Minute" and at_observed = "10 * Minute"
        and info = ?i, OF h1 h2 h3]
      ShouldClaim_stability_tier [where ParseFloat = ParseFloat_excerpt and airdrop = ?a
        and config = example_config and at_stable = "12 * Minute" and at_observed = "12 * Minute"
        and info = ?i, OF h1 h2 h3]
    by (simp add: Minute_def Second_def)
qed

text \<open>
  C3. ShouldClaim returns false for every airdrop with no recorded price observation,
  whatever its amountUsd; and with an observation and a parseable
  amountUsd >= minimumUsdThreshold it returns true, whatever the price stability.
\<close>

theorem ShouldClaim_needs_observation_then_threshold:
  "\<not> ShouldClaim ParseFloat config at_stable at_observed airdrop None \<and>
   (ParseFloat (AmountUsd airdrop) = Some usdValue \<and>
    f64_ge usdValue (MinimumUsdThreshold config) \<longrightarrow>
      ShouldClaim ParseFloat config at_stable at_observed airdrop (Some info))"
  by (simp add: ShouldClaim_def)

theorem ShouldClaim_needs_observation_then_threshold_witness:
  "ParseFloat_excerpt (AmountUsd (example_airdrop ''A1'' ''0.75'' INil)) = Some (Finite (3 / 4)) \<and>
   f64_ge (Finite (3 / 4)) (MinimumUsdThreshold example_config) \<and>
   \<not> ShouldClaim ParseFloat_excerpt example_config 0 0
       (example_airdrop ''A1'' ''0.75'' INil) None \<and>
   ShouldClaim ParseFloat_excerpt example_config 0 0
       (example_airdrop ''A1'' ''0.75'' INil)
       (Some \<lparr>LastPrice = Finite (3 / 4), LastChanged = 0, FirstObserved = 0\<rparr>)"
  using ShouldClaim_needs_observation_then_threshold
    [of ParseFloat_excerpt example_config 0 0 "example_airdrop ''A1'' ''0.75'' INil"
        "Finite (3 / 4)" "\<lparr>LastPrice = Finite (3 / 4), LastChanged = 0, FirstObserved = 0\<rparr>"]
  by (simp add: ParseFloat_excerpt_def example_airdrop_def example_config_def)

text \<open>
  C4. ShouldSellDirectly returns false whenever claimedAt is nil or the price
  observation is absent; with claimedAt set, an observation and a parseable amountUsd, it
  returns true if and only if amountUsd >= 0.10 and the price has been stable for at
  least 10 minutes and observed for at least 10 minutes (non-strict comparisons).
\<close>

theorem ShouldSellDirectly_iff:
  "\<not> ShouldSellDirectly ParseFloat at_stable at_observed airdrop None \<and>
   (ClaimedAt airdrop = INil \<longrightarrow>
      \<not> ShouldSellDirectly ParseFloat at_stable at_observed airdrop priceInfo) \<and>
   (ClaimedAt airdrop \<noteq> INil \<and> ParseFloat (AmountUsd airdrop) = Some usdValue \<longrightarrow>
      ShouldSellDirectly ParseFloat at_stable at_observed airdrop (Some info) =
        (f64_ge usdValue usd_0_10 \<and>
         at_stable - LastChanged info \<ge> 10 * Minute \<and>
         at_observed - FirstObserved info \<ge> 10 * Minute))"
  by (simp add: ShouldSellDirectly_def Let_def stable_ge_ten_minutes split: option.split)

theorem ShouldSellDirectly_iff_witness:
  "ClaimedAt (example_airdrop ''A1'' ''0.20'' INil) = INil \<and>
   \<not> ShouldSellDirectly ParseFloat_excerpt (10 * Minute) (10 * Minute)
       (example_airdrop ''A1'' ''0.20'' INil)
       (Some \<lparr>LastPrice = Finite (3602879701896397 / 18014398509481984),
              LastChanged = 0, FirstObserved = 0\<rparr>) \<and>
   ClaimedAt (example_airdrop ''A1'' ''0.20'' (IString ''2025-05-01T10:00:00Z'')) \<noteq> INil \<and>
   ParseFloat_excerpt (AmountUsd (example_airdrop ''A1'' ''0.20'' (IString ''2025-05-01T10:00:00Z''))) =
      Some (Finite (3602879701896397 / 18014398509481984)) \<and>
   ShouldSellDirectly ParseFloat_excerpt (10 * Minute) (10 * Minute)
       (example_airdrop ''A1'' ''0.20'' (IString ''2025-05-01T10:00:00Z''))
       (Some \<lparr>LastPrice = Finite (3602879701896397 / 18014398509481984),
              LastChanged = 0, FirstObserved = 0\<rparr>) \<and>
   \<not> ShouldSellDirectly ParseFloat_excerpt (10 * Minute - 1) (10 * Minute)
       (example_airdrop ''A1'' ''0.20'' (IString ''2025-05-01T10:00:00Z''))
       (Some \<lparr>LastPrice = Finite (3602879701896397 / 18014398509481984),
              LastChanged = 0, FirstObserved = 0\<rparr>)"
proof -
  let ?v = "Finite (3602879701896397 / 18014398509481984)"
  let ?i = "\<lparr>LastPrice = ?v, LastChanged = 0, FirstObserved = 0\<rparr>"
  let ?a = "example_airdrop ''A1'' ''0.20'' INil"
  let ?c = "example_airdrop ''A1'' ''0.20'' (IString ''2025-05-01T10:00:00Z'')"
  have h1: "ClaimedAt ?a = INil"
    by (simp add: example_airdrop_def)
  have h2: "ClaimedAt ?c \<noteq> INil"
    by (simp add: example_airdrop_def)
  have h3: "ParseFloat_excerpt (AmountUsd ?c) = Some ?v"
    by (simp add: ParseFloat_excerpt_def example_airdrop_def)
  have h4: "f64_ge ?v usd_0_10"
    by (simp add: usd_0_10_def)
  show ?thesis
    using h1 h2 h3 h4
      ShouldSellDirectly_iff [of ParseFloat_excerpt "10 * Minute" "10 * Minute" ?a "Some ?i" ?v ?i]
      ShouldSellDirectly_iff [of ParseFloat_excerpt "10 * Minute" "10 * Minute" ?c "Some ?i" ?v ?i]
      ShouldSellDirectly_iff [of ParseFloat_excerpt "10 * Minute - 1" "10 * Minute" ?c "Some ?i" ?v ?i]
    by (simp add: Minute_def Second_def)
qed

text \<open>
  C10. When the amountUsd string of an airdrop fails to parse, both ShouldClaim and
  ShouldSellDirectly return false, whatever the price observation, claimedAt and the
  configured threshold.
\<close>

theorem unparseable_amount_fails_closed:
  "ParseFloat (AmountUsd airdrop) = None \<Longrightarrow>
   \<not> ShouldClaim ParseFloat config at_stable at_observed airdrop priceInfo \<and>
   \<not> ShouldSellDirectly ParseFloat at_stable' at_observed' airdrop priceInfo"
  by (simp add: ShouldClaim_def ShouldSellDirectly_def split: option.split)

theorem unparseable_amount_fails_closed_witness:
  "ParseFloat_excerpt (AmountUsd (example_airdrop ''A1'' ''n/a'' (IString ''2025-05-01T10:00:00Z''))) = None \<and>
   \<not> ShouldClaim ParseFloat_excerpt example_config (12 * Minute) (12 * Minute)
       (example_airdrop ''A1'' ''n/a'' (IString ''2025-05-01T10:00:00Z''))
       (Some \<lparr>LastPrice = Finite (3 / 4), LastChanged = 0, FirstObserved = 0\<rparr>) \<and>
   \<not> ShouldSellDirectly ParseFloat_excerpt (12 * Minute) (12 * Minute)
       (example_airdrop ''A1'' ''n/a'' (IString ''2025-05-01T10:00:00Z''))
       (Some \<lparr>LastPrice = Finite (3 / 4), LastChanged = 0, FirstObserved = 0\<rparr>)"
proof -
  let ?a = "example_airdrop ''A1'' ''n/a'' (IString ''2025-05-01T10:00:00Z'')"
  have h: "ParseFloat_excerpt (AmountUsd ?a) = None"
    by (simp add: ParseFloat_excerpt_def example_airdrop_def)
  show ?thesis
    using h unparseable_amount_fails_closed
      [where ParseFloat = ParseFloat_excerpt and airdrop = ?a, OF h]
    by simp
qed

section \<open>Properties of the price tracker\<close>

lemma UpdatePriceData_unparseable:
  "ParseFloat (AmountUsd airdrop) = None \<Longrightarrow> UpdatePriceData ParseFloat now airdrop p = p"
  by (simp add: UpdatePriceData_def)

lemma UpdatePriceData_first:
  "p (ID airdrop) = None \<Longrightarrow> ParseFloat (AmountUsd airdrop) = Some usdValue \<Longrightarrow>
   UpdatePriceData ParseFloat now airdrop p (ID airdrop) =
     Some \<lparr>LastPrice = usdValue, LastChanged = now, FirstObserved = now\<rparr>"
  by (simp add: UpdatePriceData_def)

lemma UpdatePriceData_equal_value:
  "p (ID airdrop) = Some info \<Longrightarrow> ParseFloat (AmountUsd airdrop) = Some usdValue \<Longrightarrow>
   \<not> f64_ne (LastPrice info) usdValue \<Longrightarrow> UpdatePriceData ParseFloat now airdrop p = p"
  by (simp add: UpdatePriceData_def)

lemma UpdatePriceData_changes_only_on_new_value:
  assumes "p i = Some info"
    and "UpdatePriceData ParseFloat now airdrop p i \<noteq> Some info"
  shows "ID airdrop = i \<and>
         (\<exists>v. ParseFloat (AmountUsd airdrop) = Some v \<and> f64_ne (LastPrice info) v \<and>
              UpdatePriceData ParseFloat now airdrop p i =
                Some \<lparr>LastPrice = v, LastChanged = now, FirstObserved = FirstObserved info\<rparr>)"
proof (cases "ParseFloat (AmountUsd airdrop)")
  case None
  with assms show ?thesis
    by (simp add: UpdatePriceData_def)
next
  case (Some v)
  show ?thesis
  proof (cases "ID airdrop = i")
    case True
    with assms Some show ?thesis
      by (auto simp: UpdatePriceData_def split: if_splits)
  next
    case False
    with assms Some show ?thesis
      by (auto simp: UpdatePriceData_def split: option.splits if_splits)
  qed
qed

lemma UpdatePriceData_keeps_FirstObserved:
  assumes "p i = Some info"
  shows "\<exists>info'. UpdatePriceData ParseFloat now airdrop p i = Some info' \<and>
                 FirstObserved info' = FirstObserved info"
proof (cases "UpdatePriceData ParseFloat now airdrop p i = Some info")
  case True
  then show ?thesis by simp
next
  case False
  with UpdatePriceData_changes_only_on_new_value
    [where p = p and i = i and info = info, OF assms False]
  show ?thesis
    by auto
qed

lemma UpdatePriceData_calls_keep_FirstObserved:
  "p i = Some info \<Longrightarrow>
   \<exists>info'. UpdatePriceData_calls ParseFloat calls p i = Some info' \<and>
           FirstObserved info' = FirstObserved info"
proof (induction calls arbitrary: p info)
  case Nil
  then show ?case by simp
next
  case (Cons c calls)
  obtain now airdrop where c: "c = (now, airdrop)"
    by (cases c)
  from UpdatePriceData_keeps_FirstObserved [where p = p and i = i, OF Cons.prems]
  obtain mid where mid: "UpdatePriceData ParseFloat now airdrop p i = Some mid"
    and fo: "FirstObserved mid = FirstObserved info"
    by blast
  from Cons.IH [where p = "UpdatePriceData ParseFloat now airdrop p", OF mid] fo c
  show ?case
    by simp
qed

text \<open>
  C9. For every sequence of UpdatePriceData calls: a call whose amountUsd string fails to
  parse leaves the tracker unchanged; the first parseable observation for an id sets
  firstObserved (and lastChanged) to the time of that call, and no later sequence of
  calls changes firstObserved; a call changes the stored observation of an id only when
  it is for that id and its parsed value differs from the stored lastPrice, and then
  lastChanged becomes the time of the call; an equal-value observation changes nothing.
\<close>

theorem price_tracker_invariants:
  "(ParseFloat (AmountUsd airdrop) = None \<longrightarrow>
      UpdatePriceData ParseFloat now airdrop p = p) \<and>
   (p (ID airdrop) = None \<and> ParseFloat (AmountUsd airdrop) = Some usdValue \<longrightarrow>
      UpdatePriceData ParseFloat now airdrop p (ID airdrop) =
        Some \<lparr>LastPrice = usdValue, LastChanged = now, FirstObserved = now\<rparr>) \<and>
   (p i = Some info \<longrightarrow>
      (\<exists>info'. UpdatePriceData_calls ParseFloat calls p i = Some info' \<and>
               FirstObserved info' = FirstObserved info)) \<and>
   (p i = Some info \<and> UpdatePriceData ParseFloat now airdrop p i \<noteq> Some info \<longrightarrow>
      ID airdrop = i \<and>
      (\<exists>v. ParseFloat (AmountUsd airdrop) = Some v \<and> f64_ne (LastPrice info) v \<and>
           UpdatePriceData ParseFloat now airdrop p i =
             Some \<lparr>LastPrice = v, LastChanged = now, FirstObserved = FirstObserved info\<rparr>)) \<and>
   (p (ID airdrop) = Some info \<and> ParseFloat (AmountUsd airdrop) = Some usdValue \<and>
    \<not> f64_ne (LastPrice info) usdValue \<longrightarrow>
      UpdatePriceData ParseFloat now airdrop p = p)"
  using UpdatePriceData_unparseable [of ParseFloat airdrop now p]
    UpdatePriceData_first [of p airdrop ParseFloat usdValue now]
    UpdatePriceData_calls_keep_FirstObserved [of p i info ParseFloat calls]
    UpdatePriceData_changes_only_on_new_value [of p i info ParseFloat now airdrop]
    UpdatePriceData_equal_value [of p airdrop info ParseFloat usdValue now]
  by blast

theorem price_tracker_invariants_witness:
  "ParseFloat_excerpt (AmountUsd (example_airdrop ''A2'' ''n/a'' INil)) = None \<and>
   UpdatePriceData ParseFloat_excerpt (6 * Minute) (example_airdrop ''A2'' ''n/a'' INil)
       [''A2'' \<mapsto> \<lparr>LastPrice = Finite (5404319552844595 / 18014398509481984),
                    LastChanged = 0, FirstObserved = 0\<rparr>] =
     [''A2'' \<mapsto> \<lparr>LastPrice = Finite (5404319552844595 / 18014398509481984),
                  LastChanged = 0, FirstObserved = 0\<rparr>] \<and>
   ParseFloat_excerpt (AmountUsd (example_airdrop ''A2'' ''0.30'' INil)) =
     Some (Finite (5404319552844595 / 18014398509481984)) \<and>
   UpdatePriceData ParseFloat_excerpt 0 (example_airdrop ''A2'' ''0.30'' INil) Map.empty ''A2'' =
     Some \<lparr>LastPrice = Finite (5404319552844595 / 18014398509481984),
           LastChanged = 0, FirstObserved = 0\<rparr> \<and>
   (\<exists>info'. UpdatePriceData_calls ParseFloat_excerpt
        [(5 * Minute, example_airdrop ''A2'' ''0.30'' INil),
         (6 * Minute, example_airdrop ''A2'' ''n/a'' INil),
         (11 * Minute, example_airdrop ''A2'' ''0.20'' INil)]
        [''A2'' \<mapsto> \<lparr>LastPrice = Finite (5404319552844595 / 18014398509481984),
                     LastChanged = 0, FirstObserved = 0\<rparr>] ''A2'' = Some info' \<and>
      FirstObserved info' = 0) \<and>
   UpdatePriceData ParseFloat_excerpt (11 * Minute) (example_airdrop ''A2'' ''0.20'' INil)
       [''A2'' \<mapsto> \<lparr>LastPrice = Finite (5404319552844595 / 18014398509481984),
                    LastChanged = 0, FirstObserved = 0\<rparr>] ''A2'' =
     Some \<lparr>LastPrice = Finite (3602879701896397 / 18014398509481984),
           LastChanged = 11 * Minute, FirstObserved = 0\<rparr> \<and>
   UpdatePriceData ParseFloat_excerpt (5 * Minute) (example_airdrop ''A2'' ''0.30'' INil)
       [''A2'' \<mapsto> \<lparr>LastPrice = Finite (5404319552844595 / 18014398509481984),
                    LastChanged = 0, FirstObserved = 0\<rparr>] =
     [''A2'' \<mapsto> \<lparr>LastPrice = Finite (5404319552844595 / 18014398509481984),
                  LastChanged = 0, FirstObserved = 0\<rparr>]"
proof -
  let ?v30 = "Finite (5404319552844595 / 18014398509481984)"
  let ?v20 = "Finite (3602879701896397 / 18014398509481984)"
  let ?info = "\<lparr>LastPrice = ?v30, LastChanged = 0, FirstObserved = 0\<rparr>"
  let ?p = "[''A2'' \<mapsto> ?info]"
  let ?bad = "example_airdrop ''A2'' ''n/a'' INil"
  let ?a30 = "example_airdrop ''A2'' ''0.30'' INil"
  let ?a20 = "example_airdrop ''A2'' ''0.20'' INil"
  let ?calls = "[(5 * Minute, ?a30), (6 * Minute, ?bad), (11 * Minute, ?a20)]"
  have bad: "ParseFloat_excerpt (AmountUsd ?bad) = None"
    by (simp add: ParseFloat_excerpt_def example_airdrop_def)
  have p30: "ParseFloat_excerpt (AmountUsd ?a30) = Some ?v30"
    by (simp add: ParseFloat_excerpt_def example_airdrop_def)
  have p20: "ParseFloat_excerpt (AmountUsd ?a20) = Some ?v20"
    by (simp add: ParseFloat_excerpt_def example_airdrop_def)
  have ids: "ID ?bad = ''A2''" "ID ?a30 = ''A2''" "ID ?a20 = ''A2''"
    by (simp_all add: example_airdrop_def)
  have stored: "?p ''A2'' = Some ?info"
    by simp
  have changed: "UpdatePriceData ParseFloat_excerpt (11 * Minute) ?a20 ?p ''A2'' \<noteq> Some ?info"
    using p20 ids by (simp add: UpdatePriceData_def)
  have same: "\<not> f64_ne (LastPrice ?info) ?v30"
    by simp
  note t = price_tracker_invariants [where ParseFloat = ParseFloat_excerpt
      and i = "''A2''" and info = ?info and calls = ?calls]
  have c1: "UpdatePriceData ParseFloat_excerpt (6 * Minute) ?bad ?p = ?p"
    using t [where airdrop = ?bad and now = "6 * Minute" and p = ?p and usdValue = ?v30,
             THEN conjunct1] bad
    by (rule mp)
  have c2: "UpdatePriceData ParseFloat_excerpt 0 ?a30 Map.empty ''A2'' = Some ?info"
    using t [where airdrop = ?a30 and now = 0 and p = Map.empty and usdValue = ?v30,
             THEN conjunct2, THEN conjunct1] p30 ids(2)
    by simp
  have c3: "\<exists>info'. UpdatePriceData_calls ParseFloat_excerpt ?calls ?p ''A2'' = Some info' \<and>
              FirstObserved info' = 0"
    using t [where airdrop = ?a30 and now = 0 and p = ?p and usdValue = ?v30,
             THEN conjunct2, THEN conjunct2, THEN conjunct1] stored
    by simp
  have c4: "UpdatePriceData ParseFloat_excerpt (11 * Minute) ?a20 ?p ''A2'' =
              Some \<lparr>LastPrice = ?v20, LastChanged = 11 * Minute, FirstObserved = 0\<rparr>"
    using t [where airdrop = ?a20 and now = "11 * Minute" and p = ?p and usdValue = ?v20,
             THEN conjunct2, THEN conjunct2, THEN conjunct2, THEN conjunct1]
      stored changed p20
    by auto
  have c5: "UpdatePriceData ParseFloat_excerpt (5 * Minute) ?a30 ?p = ?p"
    using t [where airdrop = ?a30 and now = "5 * Minute" and p = ?p and usdValue = ?v30,
             THEN conjunct2, THEN conjunct2, THEN conjunct2, THEN conjunct2]
      p30 ids(2) same
    by simp
  from bad p30 c1 c2 c3 c4 c5 show ?thesis
    by (intro conjI)
qed

section \<open>Properties of the claimer\<close>

text \<open>
  C8. ClaimAirdropByID returns an error without submitting any transaction in two
  cases: when the store has no airdrop with the given id (not found), and when the
  stored record's claimedAt is already set (already claimed); in both cases no claim
  instruction is built and nothing is sent, and no collaborator is called at all.
\<close>

theorem ClaimAirdropByID_preconditions:
  "(store airdropID = None \<longrightarrow>
      ClaimAirdropByID env config store airdropID =
        (Returns (Inl (Errorf ''failed to get airdrop: ''
            (ErrorNew (''airdrop with ID '' @ airdropID @ '' not found'')))), [])) \<and>
   (store airdropID = Some airdrop \<and> ClaimedAt airdrop \<noteq> INil \<longrightarrow>
      ClaimAirdropByID env config store airdropID =
        (Returns (Inl (ErrorNew (''airdrop '' @ airdropID @ '' is already claimed''))), []))"
  by (simp add: ClaimAirdropByID_def ClaimAirdropByIDWithConfig_def ClaimAirdrop_def)

theorem ClaimAirdropByID_preconditions_witness:
  "[''A1'' \<mapsto> example_airdrop ''A1'' ''0.75'' (IString ''2025-05-01T10:00:00Z'')] ''A9'' = None \<and>
   ClaimAirdropByID example_claim_env example_config
       [''A1'' \<mapsto> example_airdrop ''A1'' ''0.75'' (IString ''2025-05-01T10:00:00Z'')] ''A9'' =
     (Returns (Inl (Errorf ''failed to get airdrop: ''
         (ErrorNew ''airdrop with ID A9 not found''))), []) \<and>
   [''A1'' \<mapsto> example_airdrop ''A1'' ''0.75'' (IString ''2025-05-01T10:00:00Z'')] ''A1'' =
     Some (example_airdrop ''A1'' ''0.75'' (IString ''2025-05-01T10:00:00Z'')) \<and>
   ClaimedAt (example_airdrop ''A1'' ''0.75'' (IString ''2025-05-01T10:00:00Z'')) \<noteq> INil \<and>
   ClaimAirdropByID example_claim_env example_config
       [''A1'' \<mapsto> example_airdrop ''A1'' ''0.75'' (IString ''2025-05-01T10:00:00Z'')] ''A1'' =
     (Returns (Inl (ErrorNew ''airdrop A1 is already claimed'')), []) \<and>
   ClaimAirdropByID example_claim_env example_config
       [''A1'' \<mapsto> example_airdrop ''A1'' ''0.75'' INil] ''A1'' =
     (Returns (Inr ''5sig''),
      [FetchBlockhash, BuildClaimInstruction 1000000, SendClaimTransaction, AfterClaim ''5sig''])"
proof -
  let ?c = "example_airdrop ''A1'' ''0.75'' (IString ''2025-05-01T10:00:00Z'')"
  let ?s = "[''A1'' \<mapsto> ?c]"
  have h1: "?s ''A9'' = None"
    by simp
  have h2: "?s ''A1'' = Some ?c"
    by simp
  have h3: "ClaimedAt ?c \<noteq> INil"
    by (simp add: example_airdrop_def)
  have c1: "ClaimAirdropByID example_claim_env example_config ?s ''A9'' =
     (Returns (Inl (Errorf ''failed to get airdrop: ''
         (ErrorNew ''airdrop with ID A9 not found''))), [])"
    using ClaimAirdropByID_preconditions
      [where store = ?s and airdropID = "''A9''" and env = example_claim_env
         and config = example_config and airdrop = ?c, THEN conjunct1] h1
    by simp
  have c2: "ClaimAirdropByID example_claim_env example_config ?s ''A1'' =
     (Returns (Inl (ErrorNew ''airdrop A1 is already claimed'')), [])"
    using ClaimAirdropByID_preconditions
      [where store = ?s and airdropID = "''A1''" and env = example_claim_env
         and config = example_config and airdrop = ?c, THEN conjunct2] h2 h3
    by simp
  have c3: "ClaimAirdropByID example_claim_env example_config
       [''A1'' \<mapsto> example_airdrop ''A1'' ''0.75'' INil] ''A1'' =
     (Returns (Inr ''5sig''),
      [FetchBlockhash, BuildClaimInstruction 1000000, SendClaimTransaction, AfterClaim ''5sig''])"
    by (simp add: ClaimAirdropByID_def ClaimAirdropByIDWithConfig_def ClaimAirdrop_def
        example_airdrop_def example_claim_env_def example_config_def)
  from h1 h2 h3 c1 c2 c3 show ?thesis
    by (intro conjI)
qed

section \<open>Properties of the swap retry loop\<close>

lemma show_int_10: "show_int 10 = ''10''"
  by (simp add: show_int_def show_nat.simps)

lemma attempts_made_append: "attempts_made (xs @ ys) = attempts_made xs + attempts_made ys"
  by (induction xs rule: attempts_made.induct) simp_all

lemma swap_attempt_calls:
  assumes "swap_attempt r a u = (res, u', calls)"
  shows "e \<in> set calls \<Longrightarrow> attempt_of e = Some a"
    and "GetSwapTransaction k b \<in> set calls \<Longrightarrow> k = a \<and> b = u"
    and "SendTransaction k \<in> set calls \<Longrightarrow> k = a"
    and "Sleep x \<notin> set calls"
  using assms
  by (auto simp: swap_attempt_def split: option.splits sum.splits)

lemma swap_attempt_first:
  assumes "swap_attempt r a u = (res, u', calls)"
  shows "\<exists>rest. calls = GetSwapQuote a # rest \<and> attempts_made rest = 0"
  using assms
  by (auto simp: swap_attempt_def split: option.splits sum.splits)

lemma swap_attempt_flag:
  assumes "swap_attempt r a u = (res, u', calls)"
  shows "u' \<longrightarrow> u"
  using assms
  by (auto simp: swap_attempt_def split: option.splits sum.splits if_splits)

lemma swap_attempt_marker:
  assumes "swap_attempt r a u = (res, u', calls)"
    and "GetSwapTransaction a b \<in> set calls"
    and "getSwapTransactionWithOptions r b = Some e"
    and "Contains (Error e) shared_accounts_unsupported"
  shows "\<not> u'"
  using assms
  by (auto simp: swap_attempt_def split: option.splits sum.splits if_splits)

lemma swap_attempt_sent:
  assumes "swap_attempt r a u = (res, u', calls)"
    and "SendTransaction k \<in> set calls"
    and "sendTransactionWithOpts r = Inr sig"
  shows "res = Inr sig \<and> last calls = SendTransaction k"
  using assms
  by (auto simp: swap_attempt_def split: option.splits sum.splits if_splits)

lemma swap_attempt_success:
  assumes "swap_attempt r a u = (Inr sig, u', calls)"
  shows "sendTransactionWithOpts r = Inr sig \<and> last calls = SendTransaction a"
  using assms
  by (auto simp: swap_attempt_def split: option.splits sum.splits if_splits)

lemma swap_attempt_made:
  assumes "swap_attempt r a u = (res, u', calls)"
  shows "attempts_made calls = 1"
  using assms
  by (auto simp: swap_attempt_def split: option.splits sum.splits if_splits)

lemma swap_loop_induct [case_names exhausted success retry]:
  assumes ex: "\<And>a u le. \<not> a \<le> m \<Longrightarrow> P a u le (Inl (all_attempts_failed m le), [])"
    and su: "\<And>a u le sig u' calls. a \<le> m \<Longrightarrow>
               swap_attempt (env a) a u = (Inr sig, u', calls) \<Longrightarrow> P a u le (Inr sig, calls)"
    and re: "\<And>a u le err u' calls r rest. a \<le> m \<Longrightarrow>
               swap_attempt (env a) a u = (Inl err, u', calls) \<Longrightarrow>
               swap_loop env m d (a + 1) u' (Some err) = (r, rest) \<Longrightarrow>
               P (a + 1) u' (Some err) (r, rest) \<Longrightarrow>
               P a u le (r, calls @ Sleep d # rest)"
  shows "P a u le (swap_loop env m d a u le)"
proof (induction "nat (m + 1 - a)" arbitrary: a u le)
  case 0
  then have "\<not> a \<le> m" by simp
  then show ?case
    using ex [of a u le] by (simp add: swap_loop.simps)
next
  case (Suc n)
  then have le: "a \<le> m" and n: "n = nat (m + 1 - (a + 1))"
    by simp_all
  obtain res u' calls where att: "swap_attempt (env a) a u = (res, u', calls)"
    by (cases "swap_attempt (env a) a u") auto
  show ?case
  proof (cases res)
    case (Inr sig)
    with le att su [of a u sig u' calls le] show ?thesis
      by (simp add: swap_loop.simps [of env m d a])
  next
    case (Inl err)
    obtain r rest where rec: "swap_loop env m d (a + 1) u' (Some err) = (r, rest)"
      by (cases "swap_loop env m d (a + 1) u' (Some err)") auto
    from Suc.hyps(1) [OF n, of u' "Some err"] rec
    have "P (a + 1) u' (Some err) (r, rest)"
      by simp
    from re [OF le att [unfolded Inl] rec this] le att Inl rec show ?thesis
      by (simp add: swap_loop.simps [of env m d a])
  qed
qed

lemma swap_loop_attempts:
  "attempts_made (snd (swap_loop env m d a u le)) \<le> nat (m + 1 - a)"
proof -
  have "case swap_loop env m d a u le of (r, evs) \<Rightarrow> attempts_made evs \<le> nat (m + 1 - a)"
  proof (induction a u le rule: swap_loop_induct [where env = env and m = m and d = d])
    case (exhausted a u le)
    then show ?case by simp
  next
    case (success a u le sig u' calls)
    then show ?case
      using swap_attempt_made [of "env a" a u "Inr sig" u' calls] by simp
  next
    case (retry a u le err u' calls r rest)
    then show ?case
      using swap_attempt_made [of "env a" a u "Inl err" u' calls]
      by (simp add: attempts_made_append)
  qed
  then show ?thesis
    by (simp add: case_prod_unfold)
qed

lemma swap_loop_range:
  "swap_loop env m d a u le = (r, evs) \<Longrightarrow>
   (\<forall>e \<in> set evs. \<forall>k. attempt_of e = Some k \<longrightarrow> a \<le> k \<and> k \<le> m) \<and>
   (\<forall>x. Sleep x \<in> set evs \<longrightarrow> x = d)"
proof -
  have "case swap_loop env m d a u le of (r, evs) \<Rightarrow>
          (\<forall>e \<in> set evs. \<forall>k. attempt_of e = Some k \<longrightarrow> a \<le> k \<and> k \<le> m) \<and>
          (\<forall>x. Sleep x \<in> set evs \<longrightarrow> x = d)"
  proof (induction a u le rule: swap_loop_induct [where env = env and m = m and d = d])
    case (exhausted a u le)
    then show ?case by simp
  next
    case (success a u le sig u' calls)
    from swap_attempt_calls(1,4) [OF success(2)] success(1) show ?case
      by fastforce
  next
    case (retry a u le err u' calls r rest)
    have "a \<le> k \<and> k \<le> m"
      if "e \<in> set (calls @ Sleep d # rest)" and "attempt_of e = Some k" for e k
    proof (cases "e \<in> set calls")
      case True
      from swap_attempt_calls(1) [OF retry(2) True] that(2) retry(1) show ?thesis
        by simp
    next
      case False
      with that have "e \<in> set rest"
        by auto
      with retry(4) that(2) show ?thesis
        by fastforce
    qed
    moreover have "x = d" if "Sleep x \<in> set (calls @ Sleep d # rest)" for x
      using that swap_attempt_calls(4) [OF retry(2)] retry(4) by auto
    ultimately show ?case
      by blast
  qed
  then show "swap_loop env m d a u le = (r, evs) \<Longrightarrow> ?thesis"
    by simp
qed

lemma swap_loop_flag:
  "swap_loop env m d a u le = (r, evs) \<Longrightarrow>
   GetSwapTransaction k b \<in> set evs \<Longrightarrow> b \<Longrightarrow> u"
proof -
  have "case swap_loop env m d a u le of (r, evs) \<Rightarrow>
          (\<forall>k b. GetSwapTransaction k b \<in> set evs \<longrightarrow> b \<longrightarrow> u)"
  proof (induction a u le rule: swap_loop_induct [where env = env and m = m and d = d])
    case (exhausted a u le)
    then show ?case by simp
  next
    case (success a u le sig u' calls)
    from swap_attempt_calls(2) [OF success(2)] show ?case
      by auto
  next
    case (retry a u le err u' calls r rest)
    from swap_attempt_calls(2) [OF retry(2)] swap_attempt_flag [OF retry(2)] retry(4)
    show ?case
      by auto
  qed
  then show "swap_loop env m d a u le = (r, evs) \<Longrightarrow>
      GetSwapTransaction k b \<in> set evs \<Longrightarrow> b \<Longrightarrow> u"
    by auto
qed

lemma swap_loop_marker:
  "swap_loop env m d a u le = (r, evs) \<Longrightarrow>
   GetSwapTransaction j b \<in> set evs \<Longrightarrow>
   getSwapTransactionWithOptions (env j) b = Some e \<Longrightarrow>
   Contains (Error e) shared_accounts_unsupported \<Longrightarrow>
   GetSwapTransaction k b' \<in> set evs \<Longrightarrow> j < k \<Longrightarrow> \<not> b'"
proof -
  have "case swap_loop env m d a u le of (r, evs) \<Rightarrow>
          (\<forall>j b e k b'. GetSwapTransaction j b \<in> set evs \<longrightarrow>
             getSwapTransactionWithOptions (env j) b = Some e \<longrightarrow>
             Contains (Error e) shared_accounts_unsupported \<longrightarrow>
             GetSwapTransaction k b' \<in> set evs \<longrightarrow> j < k \<longrightarrow> \<not> b')"
  proof (induction a u le rule: swap_loop_induct [where env = env and m = m and d = d])
    case (exhausted a u le)
    then show ?case by simp
  next
    case (success a u le sig u' calls)
    have "\<not> b'" if "GetSwapTransaction j b \<in> set calls"
      and "GetSwapTransaction k b' \<in> set calls" and "j < k" for j b k b'
      using swap_attempt_calls(2) [OF success(2) that(1)]
        swap_attempt_calls(2) [OF success(2) that(2)] that(3)
      by simp
    then show ?case
      by blast
  next
    case (retry a u le err u' calls r rest)
    note range = swap_loop_range [OF retry(3)]
    note flag = swap_loop_flag [OF retry(3)]
    note here = swap_attempt_calls(2) [OF retry(2)]
    have "\<not> b'" if j: "GetSwapTransaction j b \<in> set (calls @ Sleep d # rest)"
      and resp: "getSwapTransactionWithOptions (env j) b = Some e"
      and mark: "Contains (Error e) shared_accounts_unsupported"
      and k: "GetSwapTransaction k b' \<in> set (calls @ Sleep d # rest)"
      and jk: "j < k" for j b e k b'
    proof (cases "GetSwapTransaction j b \<in> set calls")
      case True
      with here have ja: "j = a" by blast
      from swap_attempt_marker [OF retry(2) True [unfolded ja] resp [unfolded ja] mark]
      have off: "\<not> u'" .
      have "GetSwapTransaction k b' \<notin> set calls"
        using here [of k b'] jk ja by auto
      with k have "GetSwapTransaction k b' \<in> set rest"
        by auto
      with flag off show ?thesis
        by blast
    next
      case False
      with j have jr: "GetSwapTransaction j b \<in> set rest"
        by auto
      with range have "a + 1 \<le> j"
        by fastforce
      then have "GetSwapTransaction k b' \<notin> set calls"
        using here [of k b'] jk by auto
      with k have "GetSwapTransaction k b' \<in> set rest"
        by auto
      with retry(4) jr resp mark jk show ?thesis
        by blast
    qed
    then show ?case
      by blast
  qed
  then have all: "\<forall>j b e k b'. GetSwapTransaction j b \<in> set evs \<longrightarrow>
             getSwapTransactionWithOptions (env j) b = Some e \<longrightarrow>
             Contains (Error e) shared_accounts_unsupported \<longrightarrow>
             GetSwapTransaction k b' \<in> set evs \<longrightarrow> j < k \<longrightarrow> \<not> b'"
    if "swap_loop env m d a u le = (r, evs)"
    using that by simp
  show "swap_loop env m d a u le = (r, evs) \<Longrightarrow>
   GetSwapTransaction j b \<in> set evs \<Longrightarrow>
   getSwapTransactionWithOptions (env j) b = Some e \<Longrightarrow>
   Contains (Error e) shared_accounts_unsupported \<Longrightarrow>
   GetSwapTransaction k b' \<in> set evs \<Longrightarrow> j < k \<Longrightarrow> \<not> b'"
    using all by blast
qed

lemma swap_loop_sent:
  "swap_loop env m d a u le = (r, evs) \<Longrightarrow>
   SendTransaction k \<in> set evs \<Longrightarrow> sendTransactionWithOpts (env k) = Inr sig \<Longrightarrow>
   r = Inr sig \<and> last evs = SendTransaction k"
proof -
  have "case swap_loop env m d a u le of (r, evs) \<Rightarrow>
          (\<forall>k sig. SendTransaction k \<in> set evs \<longrightarrow>
             sendTransactionWithOpts (env k) = Inr sig \<longrightarrow>
             r = Inr sig \<and> last evs = SendTransaction k)"
  proof (induction a u le rule: swap_loop_induct [where env = env and m = m and d = d])
    case (exhausted a u le)
    then show ?case by simp
  next
    case (success a u le sig u' calls)
    have "Inr sig = Inr sig' \<and> last calls = SendTransaction k"
      if "SendTransaction k \<in> set calls" and "sendTransactionWithOpts (env k) = Inr sig'"
      for k sig'
      using that swap_attempt_calls(3) [OF success(2) that(1)]
        swap_attempt_success [OF success(2)]
      by simp
    then show ?case
      by simp
  next
    case (retry a u le err u' calls r rest)
    have "r = Inr sig \<and> last (calls @ Sleep d # rest) = SendTransaction k"
      if k: "SendTransaction k \<in> set (calls @ Sleep d # rest)"
        and ok: "sendTransactionWithOpts (env k) = Inr sig" for k sig
    proof (cases "SendTransaction k \<in> set calls")
      case True
      with swap_attempt_calls(3) [OF retry(2)] have "k = a" by blast
      with swap_attempt_sent [OF retry(2) True] ok show ?thesis
        by simp
    next
      case False
      with k have kr: "SendTransaction k \<in> set rest"
        by auto
      then have "rest \<noteq> []" by auto
      with retry(4) kr ok show ?thesis
        by auto
    qed
    then show ?case
      by blast
  qed
  then show "swap_loop env m d a u le = (r, evs) \<Longrightarrow>
   SendTransaction k \<in> set evs \<Longrightarrow> sendTransactionWithOpts (env k) = Inr sig \<Longrightarrow>
   r = Inr sig \<and> last evs = SendTransaction k"
    by (simp add: case_prod_unfold)
qed

lemma no_quote_split:
  "attempts_made xs = 0 \<Longrightarrow> xs @ ys = pre @ GetSwapQuote k # post \<Longrightarrow>
   \<exists>pre'. pre = xs @ pre' \<and> ys = pre' @ GetSwapQuote k # post"
proof (induction xs arbitrary: pre)
  case Nil
  then show ?case by simp
next
  case (Cons x xs)
  from Cons.prems(1) have x: "\<forall>j. x \<noteq> GetSwapQuote j" and xs: "attempts_made xs = 0"
    by (cases x; simp)+
  show ?case
  proof (cases pre)
    case Nil
    with Cons.prems(2) x show ?thesis
      by simp
  next
    case (Cons p pre1)
    with Cons.prems(2) have px: "p = x" and eq: "xs @ ys = pre1 @ GetSwapQuote k # post"
      by simp_all
    from Cons.IH [OF xs eq] px Cons show ?thesis
      by auto
  qed
qed

lemma swap_loop_delay:
  "swap_loop env m d a u le = (r, evs) \<Longrightarrow>
   evs = pre @ GetSwapQuote k # post \<Longrightarrow> pre \<noteq> [] \<Longrightarrow> last pre = Sleep d"
proof -
  have "case swap_loop env m d a u le of (r, evs) \<Rightarrow>
          (\<forall>pre k post. evs = pre @ GetSwapQuote k # post \<longrightarrow> pre \<noteq> [] \<longrightarrow>
             last pre = Sleep d)"
  proof (induction a u le rule: swap_loop_induct [where env = env and m = m and d = d])
    case (exhausted a u le)
    then show ?case by simp
  next
    case (success a u le sig u' calls)
    from swap_attempt_first [OF success(2)]
    obtain tl where calls: "calls = GetSwapQuote a # tl" and tl: "attempts_made tl = 0"
      by blast
    have False if eq: "calls = pre @ GetSwapQuote k # post" and ne: "pre \<noteq> []"
      for pre k post
    proof -
      from ne obtain p pre1 where pre: "pre = p # pre1"
        by (cases pre) auto
      with eq calls have "tl = pre1 @ GetSwapQuote k # post"
        by simp
      with tl show False
        by (simp add: attempts_made_append)
    qed
    then show ?case
      by blast
  next
    case (retry a u le err u' calls r rest)
    from swap_attempt_first [OF retry(2)]
    obtain tl where calls: "calls = GetSwapQuote a # tl" and tl: "attempts_made tl = 0"
      by blast
    have "last pre = Sleep d"
      if eq: "calls @ Sleep d # rest = pre @ GetSwapQuote k # post" and ne: "pre \<noteq> []"
      for pre k post
    proof -
      from ne obtain p pre1 where pre: "pre = p # pre1"
        by (cases pre) auto
      with eq calls have eq1: "(tl @ [Sleep d]) @ rest = pre1 @ GetSwapQuote k # post"
        by simp
      have "attempts_made (tl @ [Sleep d]) = 0"
        using tl by (simp add: attempts_made_append)
      from no_quote_split [OF this eq1]
      obtain pre' where pre1: "pre1 = (tl @ [Sleep d]) @ pre'"
        and rest: "rest = pre' @ GetSwapQuote k # post"
        by blast
      show ?thesis
      proof (cases "pre' = []")
        case True
        with pre pre1 show ?thesis by simp
      next
        case False
        with retry(4) rest have "last pre' = Sleep d"
          by simp
        with False pre pre1 show ?thesis by simp
      qed
    qed
    then show ?case
      by (simp del: append_assoc) blast
  qed
  then show "swap_loop env m d a u le = (r, evs) \<Longrightarrow>
   evs = pre @ GetSwapQuote k # post \<Longrightarrow> pre \<noteq> [] \<Longrightarrow> last pre = Sleep d"
    by simp
qed

lemma swap_loop_exhausted:
  "swap_loop env m d a u le = (Inl x, evs) \<Longrightarrow> a \<le> m \<Longrightarrow>
   attempts_made evs = nat (m + 1 - a) \<and>
   (\<exists>e b u' calls pre.
      x = all_attempts_failed m (Some e) \<and>
      swap_attempt (env m) m b = (Inl e, u', calls) \<and>
      evs = pre @ calls @ [Sleep d])"
proof -
  have "case swap_loop env m d a u le of (r, evs) \<Rightarrow>
          (\<forall>x. r = Inl x \<longrightarrow>
             (if a \<le> m then
                attempts_made evs = nat (m + 1 - a) \<and>
                (\<exists>e b u' calls pre.
                   x = all_attempts_failed m (Some e) \<and>
                   swap_attempt (env m) m b = (Inl e, u', calls) \<and>
                   evs = pre @ calls @ [Sleep d])
              else x = all_attempts_failed m le \<and> evs = []))"
  proof (induction a u le rule: swap_loop_induct [where env = env and m = m and d = d])
    case (exhausted a u le)
    then show ?case by simp
  next
    case (success a u le sig u' calls)
    then show ?case by simp
  next
    case (retry a u le err u' calls r rest)
    have made: "attempts_made calls = 1"
      by (rule swap_attempt_made [OF retry(2)])
    show ?case
    proof (cases "a + 1 \<le> m")
      case True
      have "attempts_made (calls @ Sleep d # rest) = nat (m + 1 - a) \<and>
            (\<exists>e b u' cs pre.
               x = all_attempts_failed m (Some e) \<and>
               swap_attempt (env m) m b = (Inl e, u', cs) \<and>
               calls @ Sleep d # rest = pre @ cs @ [Sleep d])" if "r = Inl x" for x
      proof -
        from retry(4) that True
        have n: "attempts_made rest = nat (m + 1 - (a + 1))"
          and "\<exists>e b u' cs pre.
                 x = all_attempts_failed m (Some e) \<and>
                 swap_attempt (env m) m b = (Inl e, u', cs) \<and>
                 rest = pre @ cs @ [Sleep d]"
          by simp_all
        then obtain e b u'' cs pre where x: "x = all_attempts_failed m (Some e)"
          and att: "swap_attempt (env m) m b = (Inl e, u'', cs)"
          and rest: "rest = pre @ cs @ [Sleep d]"
          by blast
        have "calls @ Sleep d # rest = (calls @ Sleep d # pre) @ cs @ [Sleep d]"
          using rest by simp
        with x att have "\<exists>e b u' cs pre.
               x = all_attempts_failed m (Some e) \<and>
               swap_attempt (env m) m b = (Inl e, u', cs) \<and>
               calls @ Sleep d # rest = pre @ cs @ [Sleep d]"
          by blast
        moreover have "attempts_made (calls @ Sleep d # rest) = nat (m + 1 - a)"
          using made n True by (simp add: attempts_made_append)
        ultimately show ?thesis
          by blast
      qed
      with retry(1) show ?thesis
        by simp
    next
      case False
      with retry(1) have am: "a = m"
        by simp
      from retry(4) False have last: "\<forall>x. r = Inl x \<longrightarrow>
          x = all_attempts_failed m (Some err) \<and> rest = []"
        by simp
      have "attempts_made (calls @ Sleep d # rest) = nat (m + 1 - a) \<and>
            (\<exists>e b u' cs pre.
               x = all_attempts_failed m (Some e) \<and>
               swap_attempt (env m) m b = (Inl e, u', cs) \<and>
               calls @ Sleep d # rest = pre @ cs @ [Sleep d])" if "r = Inl x" for x
      proof -
        from last that have x: "x = all_attempts_failed m (Some err)" and rest: "rest = []"
          by simp_all
        have "calls @ Sleep d # rest = [] @ calls @ [Sleep d]"
          using rest by simp
        with x retry(2) [unfolded am] have "\<exists>e b u' cs pre.
               x = all_attempts_failed m (Some e) \<and>
               swap_attempt (env m) m b = (Inl e, u', cs) \<and>
               calls @ Sleep d # rest = pre @ cs @ [Sleep d]"
          by blast
        moreover have "attempts_made (calls @ Sleep d # rest) = nat (m + 1 - a)"
          using made rest am by (simp add: attempts_made_append)
        ultimately show ?thesis
          by blast
      qed
      with retry(1) show ?thesis
        by simp
    qed
  qed
  then show "swap_loop env m d a u le = (Inl x, evs) \<Longrightarrow> a \<le> m \<Longrightarrow>
   attempts_made evs = nat (m + 1 - a) \<and>
   (\<exists>e b u' calls pre.
      x = all_attempts_failed m (Some e) \<and>
      swap_attempt (env m) m b = (Inl e, u', calls) \<and>
      evs = pre @ calls @ [Sleep d])"
    by simp
qed

lemma swap_attempt_disables:
  assumes "swap_attempt r a u = (res, u', calls)" and "u" and "\<not> u'"
  shows "\<exists>e. GetSwapTransaction a True \<in> set calls \<and>
             getSwapTransactionWithOptions r True = Some e \<and>
             Contains (Error e) shared_accounts_unsupported"
  using assms
  by (auto simp: swap_attempt_def split: option.splits sum.splits if_splits)

lemma swap_loop_disabled_by_marker:
  "swap_loop env m d a u le = (r, evs) \<Longrightarrow>
   GetSwapTransaction k False \<in> set evs \<Longrightarrow> u \<Longrightarrow>
   \<exists>j e. j < k \<and> GetSwapTransaction j True \<in> set evs \<and>
         getSwapTransactionWithOptions (env j) True = Some e \<and>
         Contains (Error e) shared_accounts_unsupported"
proof -
  have "case swap_loop env m d a u le of (r, evs) \<Rightarrow>
          (\<forall>k. GetSwapTransaction k False \<in> set evs \<longrightarrow> u \<longrightarrow>
             (\<exists>j e. j < k \<and> GetSwapTransaction j True \<in> set evs \<and>
                getSwapTransactionWithOptions (env j) True = Some e \<and>
                Contains (Error e) shared_accounts_unsupported))"
  proof (induction a u le rule: swap_loop_induct [where env = env and m = m and d = d])
    case (exhausted a u le)
    then show ?case by simp
  next
    case (success a u le sig u' calls)
    from swap_attempt_calls(2) [OF success(2)] show ?case
      by blast
  next
    case (retry a u le err u' calls r rest)
    note range = swap_loop_range [OF retry(3)]
    have "\<exists>j e. j < k \<and> GetSwapTransaction j True \<in> set (calls @ Sleep d # rest) \<and>
                getSwapTransactionWithOptions (env j) True = Some e \<and>
                Contains (Error e) shared_accounts_unsupported"
      if k: "GetSwapTransaction k False \<in> set (calls @ Sleep d # rest)" and u: "u" for k
    proof -
      from swap_attempt_calls(2) [OF retry(2), of k False] u
      have "GetSwapTransaction k False \<notin> set calls"
        by blast
      with k have kr: "GetSwapTransaction k False \<in> set rest"
        by auto
      with range have ak: "a < k"
        by fastforce
      show ?thesis
      proof (cases u')
        case True
        with retry(4) kr obtain j e where "j < k" "GetSwapTransaction j True \<in> set rest"
          "getSwapTransactionWithOptions (env j) True = Some e"
          "Contains (Error e) shared_accounts_unsupported"
          by auto
        then show ?thesis
          by auto
      next
        case False
        from swap_attempt_disables [OF retry(2) u False] ak show ?thesis
          by auto
      qed
    qed
    then show ?case
      by blast
  qed
  then show "swap_loop env m d a u le = (r, evs) \<Longrightarrow>
   GetSwapTransaction k False \<in> set evs \<Longrightarrow> u \<Longrightarrow>
   \<exists>j e. j < k \<and> GetSwapTransaction j True \<in> set evs \<and>
         getSwapTransactionWithOptions (env j) True = Some e \<and>
         Contains (Error e) shared_accounts_unsupported"
    by simp
qed

lemma all_10_attempts_failed:
  "all_attempts_failed 10 (Some e) = Errorf ''all 10 attempts failed to swap token: '' e"
  by (simp add: all_attempts_failed_def show_int_10)

lemma nth_attempt_Suc:
  "nth_attempt env (Suc j) =
     swap_attempt (env (int j + 1)) (int j + 1) (useSharedAccounts_after env j)"
  by (simp add: nth_attempt_def add.commute)

lemma useSharedAccounts_after_Suc:
  "useSharedAccounts_after env (Suc j) = fst (snd (nth_attempt env (Suc j)))"
  unfolding nth_attempt_def by simp

lemma swap_loop_course:
  assumes "j < M"
  shows "\<exists>n. j < n \<and> n \<le> M \<and>
           (\<forall>k. j < k \<and> k < n \<longrightarrow> (\<exists>e. fst (nth_attempt env k) = Inl e)) \<and>
           (case fst (nth_attempt env n) of
              Inr sig \<Rightarrow>
                swap_loop env (int M) d (int j + 1) (useSharedAccounts_after env j) le =
                  (Inr sig,
                   concat (map (\<lambda>k. snd (snd (nth_attempt env k)) @ [Sleep d]) [Suc j..<n]) @
                   snd (snd (nth_attempt env n)))
            | Inl e \<Rightarrow>
                n = M \<and>
                swap_loop env (int M) d (int j + 1) (useSharedAccounts_after env j) le =
                  (Inl (all_attempts_failed (int M) (Some e)),
                   concat (map (\<lambda>k. snd (snd (nth_attempt env k)) @ [Sleep d])
                             [Suc j..<Suc n])))"
  using assms
proof (induction "M - j" arbitrary: j le)
  case 0
  then show ?case by simp
next
  case (Suc x)
  let ?f = "\<lambda>k. snd (snd (nth_attempt env k)) @ [Sleep d]"
  obtain res u' calls where att: "nth_attempt env (Suc j) = (res, u', calls)"
    by (cases "nth_attempt env (Suc j)") auto
  then have sw: "swap_attempt (env (int j + 1)) (int j + 1) (useSharedAccounts_after env j) =
                   (res, u', calls)"
    by (simp add: nth_attempt_Suc)
  have u': "useSharedAccounts_after env (Suc j) = u'"
    unfolding useSharedAccounts_after_Suc att by simp
  have le: "int j + 1 \<le> int M"
    using Suc.prems by simp
  show ?case
  proof (cases res)
    case (Inr sig)
    have "swap_loop env (int M) d (int j + 1) (useSharedAccounts_after env j) le =
            (Inr sig, calls)"
      using le sw Inr
      by (subst swap_loop.simps) simp
    with att Inr Suc.prems show ?thesis
      by (intro exI [of _ "Suc j"]) auto
  next
    case (Inl err)
    have step: "swap_loop env (int M) d (int j + 1) (useSharedAccounts_after env j) le =
            (fst (swap_loop env (int M) d (int (Suc j) + 1) (useSharedAccounts_after env (Suc j))
                    (Some err)),
             calls @ Sleep d #
             snd (swap_loop env (int M) d (int (Suc j) + 1) (useSharedAccounts_after env (Suc j))
                    (Some err)))"
      using le sw Inl u'
      by (subst swap_loop.simps) (simp add: case_prod_unfold)
    show ?thesis
    proof (cases "Suc j < M")
      case True
      have x: "x = M - Suc j"
        using Suc.hyps(2) by simp
      from Suc.hyps(1) [OF x True, of "Some err"]
      obtain n where n: "Suc j < n" "n \<le> M"
        and failed: "\<forall>k. Suc j < k \<and> k < n \<longrightarrow> (\<exists>e. fst (nth_attempt env k) = Inl e)"
        and rest: "case fst (nth_attempt env n) of
              Inr sig \<Rightarrow>
                swap_loop env (int M) d (int (Suc j) + 1) (useSharedAccounts_after env (Suc j))
                    (Some err) =
                  (Inr sig, concat (map ?f [Suc (Suc j)..<n]) @ snd (snd (nth_attempt env n)))
            | Inl e \<Rightarrow>
                n = M \<and>
                swap_loop env (int M) d (int (Suc j) + 1) (useSharedAccounts_after env (Suc j))
                    (Some err) =
                  (Inl (all_attempts_failed (int M) (Some e)),
                   concat (map ?f [Suc (Suc j)..<Suc n]))"
        by blast
      have upt1: "[Suc j..<n] = Suc j # [Suc (Suc j)..<n]"
        using n(1) by (simp add: upt_conv_Cons)
      have upt2: "[Suc j..<Suc n] = Suc j # [Suc (Suc j)..<Suc n]"
        using n(1) by (simp add: upt_conv_Cons)
      have fj: "?f (Suc j) = calls @ [Sleep d]"
        using att by simp
      have failed': "\<forall>k. j < k \<and> k < n \<longrightarrow> (\<exists>e. fst (nth_attempt env k) = Inl e)"
      proof (intro allI impI)
        fix k assume k: "j < k \<and> k < n"
        show "\<exists>e. fst (nth_attempt env k) = Inl e"
        proof (cases "k = Suc j")
          case True
          with att Inl show ?thesis by simp
        next
          case False
          with k have "Suc j < k \<and> k < n" by simp
          with failed show ?thesis by blast
        qed
      qed
      have cat1: "concat (map ?f [Suc j..<n]) =
                    calls @ Sleep d # concat (map ?f [Suc (Suc j)..<n])"
        unfolding upt1 using fj by simp
      have cat2: "concat (map ?f [Suc j..<Suc n]) =
                    calls @ Sleep d # concat (map ?f [Suc (Suc j)..<Suc n])"
        unfolding upt2 using fj by simp
      have "case fst (nth_attempt env n) of
              Inr sig \<Rightarrow>
                swap_loop env (int M) d (int j + 1) (useSharedAccounts_after env j) le =
                  (Inr sig, concat (map ?f [Suc j..<n]) @ snd (snd (nth_attempt env n)))
            | Inl e \<Rightarrow>
                n = M \<and>
                swap_loop env (int M) d (int j + 1) (useSharedAccounts_after env j) le =
                  (Inl (all_attempts_failed (int M) (Some e)),
                   concat (map ?f [Suc j..<Suc n]))"
      proof (cases "fst (nth_attempt env n)")
        case (Inl e)
        with rest have nM: "n = M" and r: "swap_loop env (int M) d (int (Suc j) + 1)
            (useSharedAccounts_after env (Suc j)) (Some err) =
              (Inl (all_attempts_failed (int M) (Some e)),
               concat (map ?f [Suc (Suc j)..<Suc n]))"
          by simp_all
        have "swap_loop env (int M) d (int j + 1) (useSharedAccounts_after env j) le =
                  (Inl (all_attempts_failed (int M) (Some e)),
                   concat (map ?f [Suc j..<Suc n]))"
          unfolding step r cat2 by simp
        with Inl nM show ?thesis
          by simp
      next
        case (Inr sig)
        with rest have r: "swap_loop env (int M) d (int (Suc j) + 1)
            (useSharedAccounts_after env (Suc j)) (Some err) =
              (Inr sig, concat (map ?f [Suc (Suc j)..<n]) @ snd (snd (nth_attempt env n)))"
          by simp
        have "swap_loop env (int M) d (int j + 1) (useSharedAccounts_after env j) le =
                  (Inr sig, concat (map ?f [Suc j..<n]) @ snd (snd (nth_attempt env n)))"
          unfolding step r cat1 by simp
        with Inr show ?thesis
          by simp
      qed
      with n failed' show ?thesis
        by (intro exI [of _ n]) (simp del: upt_Suc)
    next
      case False
      with Suc.prems have M: "M = Suc j"
        by simp
      have "swap_loop env (int M) d (int (Suc j) + 1) (useSharedAccounts_after env (Suc j))
              (Some err) = (Inl (all_attempts_failed (int M) (Some err)), [])"
        using M by (subst swap_loop.simps) simp
      with step have "swap_loop env (int M) d (int j + 1) (useSharedAccounts_after env j) le =
          (Inl (all_attempts_failed (int M) (Some err)), calls @ [Sleep d])"
        by simp
      with att Inl M show ?thesis
        by (intro exI [of _ "Suc j"]) auto
    qed
  qed
qed

lemma attempts_made_concat:
  "(\<And>k. k \<in> set ks \<Longrightarrow> attempts_made (g k) = 1) \<Longrightarrow>
   attempts_made (concat (map g ks)) = length ks"
  by (induction ks) (simp_all add: attempts_made_append)

lemma nth_attempt_made:
  "attempts_made (snd (snd (nth_attempt env k))) = 1"
  "attempts_made (snd (snd (nth_attempt env k)) @ [Sleep d]) = 1"
  using swap_attempt_made
    [of "env (int k)" "int k" "useSharedAccounts_after env (k - 1)"
        "fst (nth_attempt env k)" "fst (snd (nth_attempt env k))"
        "snd (snd (nth_attempt env k))"]
  by (simp_all add: nth_attempt_def attempts_made_append)

lemma nth_attempt_accepted:
  assumes "fst (nth_attempt env k) = Inr sig"
  shows "sendTransactionWithOpts (env (int k)) = Inr sig \<and>
         snd (snd (nth_attempt env k)) \<noteq> [] \<and>
         last (snd (snd (nth_attempt env k))) = SendTransaction (int k)"
proof -
  have att: "swap_attempt (env (int k)) (int k) (useSharedAccounts_after env (k - 1)) =
               (Inr sig, fst (snd (nth_attempt env k)), snd (snd (nth_attempt env k)))"
    using assms by (simp add: nth_attempt_def prod_eq_iff)
  from swap_attempt_success [OF att] swap_attempt_first [OF att] show ?thesis
    by auto
qed

text \<open>
  C6. The swap of SellToken makes at most 10 attempts, numbered from 1, with a fixed
  3-second sleep after every failed attempt (so before every retry); once the
  swap-transaction request fails with the shared-accounts-unsupported message, every
  later attempt of the same call asks without shared accounts (and only such a failure
  turns them off); an attempt whose transaction submission succeeds ends the loop at once
  with that signature, and the call succeeds only in this way; when all 10 attempts fail
  the call returns an error that wraps the error of the tenth attempt, and it returns an
  error only then. The calls made are exactly those of the failed attempts, each followed
  by the sleep, and of the successful one if there is one. SellToken returns the error
  of the swap unchanged, and nil after a submitted swap unless the fee lookup panics.
\<close>

theorem SellToken_swap_retry_policy:
  assumes wallet: "GetWallet walletKey (WalletPrivateKey config) = None"
    and run: "SwapTokenForSol walletKey env (WalletPrivateKey config) = (result, calls)"
  shows "attempts_made calls \<le> 10 \<and>
    (\<forall>x. Sleep x \<in> set calls \<longrightarrow> x = 3 * Second) \<and>
    (\<forall>pre k post. calls = pre @ GetSwapQuote k # post \<and> pre \<noteq> [] \<longrightarrow>
       last pre = Sleep (3 * Second)) \<and>
    (\<forall>j b e k b'. GetSwapTransaction j b \<in> set calls \<and>
       getSwapTransactionWithOptions (env j) b = Some e \<and>
       Contains (Error e) shared_accounts_unsupported \<and>
       GetSwapTransaction k b' \<in> set calls \<and> j < k \<longrightarrow> \<not> b') \<and>
    (\<forall>k. GetSwapTransaction k False \<in> set calls \<longrightarrow>
       (\<exists>j e. j < k \<and> GetSwapTransaction j True \<in> set calls \<and>
          getSwapTransactionWithOptions (env j) True = Some e \<and>
          Contains (Error e) shared_accounts_unsupported)) \<and>
    (\<forall>k sig. SendTransaction k \<in> set calls \<and> sendTransactionWithOpts (env k) = Inr sig \<longrightarrow>
       result = Inr sig \<and> last calls = SendTransaction k) \<and>
    (\<forall>x. result = Inl x \<longrightarrow>
       attempts_made calls = 10 \<and>
       (\<exists>e b u' cs pre.
          x = Errorf ''all 10 attempts failed to swap token: '' e \<and>
          swap_attempt (env 10) 10 b = (Inl e, u', cs) \<and>
          calls = pre @ cs @ [Sleep (3 * Second)])) \<and>
    (\<exists>n. 1 \<le> n \<and> n \<le> 10 \<and> attempts_made calls = n \<and>
       (\<forall>k. 1 \<le> k \<and> k < n \<longrightarrow> (\<exists>e. fst (nth_attempt env k) = Inl e)) \<and>
       (case fst (nth_attempt env n) of
          Inr sig \<Rightarrow>
            result = Inr sig \<and>
            calls =
              concat (map (\<lambda>k. snd (snd (nth_attempt env k)) @ [Sleep (3 * Second)]) [1..<n]) @
              snd (snd (nth_attempt env n))
        | Inl e \<Rightarrow>
            n = 10 \<and>
            result = Inl (Errorf ''all 10 attempts failed to swap token: '' e) \<and>
            calls =
              concat (map (\<lambda>k. snd (snd (nth_attempt env k)) @ [Sleep (3 * Second)])
                        [1..<Suc n]))) \<and>
    ((\<forall>k. 1 \<le> k \<and> k \<le> 10 \<longrightarrow> (\<exists>e. fst (nth_attempt env k) = Inl e)) \<longrightarrow>
       (\<exists>e. fst (nth_attempt env 10) = Inl e \<and>
            result = Inl (Errorf ''all 10 attempts failed to swap token: '' e))) \<and>
    (\<forall>sig. result = Inr sig \<longrightarrow>
       (\<exists>k. 1 \<le> k \<and> k \<le> 10 \<and> fst (nth_attempt env k) = Inr sig \<and>
            sendTransactionWithOpts (env (int k)) = Inr sig \<and>
            SendTransaction (int k) \<in> set calls \<and> last calls = SendTransaction (int k))) \<and>
    (\<forall>tokenAmount. ParseUint (AmountLpt airdrop) = Inr tokenAmount \<longrightarrow>
       SellToken ParseUint walletKey env lookup config airdrop =
         (case result of
            Inl x \<Rightarrow> (Returns (Some x), calls, [HandleSellError])
          | Inr sig \<Rightarrow>
              (case lookup of
                 LookupFails err \<Rightarrow>
                   (Returns None, calls,
                    [Settle (2 * Second), FeesAndEarnings, HandleSuccessfulSaleWithEstimate])
               | LookupReturns swapFees swapEarnings \<Rightarrow>
                   (Returns None, calls,
                    [Settle (2 * Second), FeesAndEarnings,
                     HandleSuccessfulSale swapFees swapEarnings])
               | LookupPanics \<Rightarrow> (Panics, calls, [Settle (2 * Second), FeesAndEarnings]))))"
proof -
  let ?f = "\<lambda>k. snd (snd (nth_attempt env k)) @ [Sleep (3 * Second)]"
  from wallet run have loop: "swap_loop env 10 (3 * Second) 1 True None = (result, calls)"
    by (simp add: SwapTokenForSol_def SwapTokenForSolWithRetries_def)
  have c1: "attempts_made calls \<le> 10"
    using swap_loop_attempts [of env 10 "3 * Second" 1 True None] loop by simp
  have c2: "\<forall>x. Sleep x \<in> set calls \<longrightarrow> x = 3 * Second"
    using swap_loop_range [OF loop] by blast
  have c3: "\<forall>pre k post. calls = pre @ GetSwapQuote k # post \<and> pre \<noteq> [] \<longrightarrow>
       last pre = Sleep (3 * Second)"
    using swap_loop_delay [OF loop] by blast
  have c4: "\<forall>j b e k b'. GetSwapTransaction j b \<in> set calls \<and>
       getSwapTransactionWithOptions (env j) b = Some e \<and>
       Contains (Error e) shared_accounts_unsupported \<and>
       GetSwapTransaction k b' \<in> set calls \<and> j < k \<longrightarrow> \<not> b'"
    using swap_loop_marker [OF loop] by blast
  have c5: "\<forall>k. GetSwapTransaction k False \<in> set calls \<longrightarrow>
       (\<exists>j e. j < k \<and> GetSwapTransaction j True \<in> set calls \<and>
          getSwapTransactionWithOptions (env j) True = Some e \<and>
          Contains (Error e) shared_accounts_unsupported)"
    using swap_loop_disabled_by_marker [OF loop] by blast
  have c6: "\<forall>k sig. SendTransaction k \<in> set calls \<and>
       sendTransactionWithOpts (env k) = Inr sig \<longrightarrow>
       result = Inr sig \<and> last calls = SendTransaction k"
    using swap_loop_sent [OF loop] by blast
  have c7: "\<forall>x. result = Inl x \<longrightarrow>
       attempts_made calls = 10 \<and>
       (\<exists>e b u' cs pre.
          x = Errorf ''all 10 attempts failed to swap token: '' e \<and>
          swap_attempt (env 10) 10 b = (Inl e, u', cs) \<and>
          calls = pre @ cs @ [Sleep (3 * Second)])"
  proof (intro allI impI)
    fix x assume "result = Inl x"
    with loop have "swap_loop env 10 (3 * Second) 1 True None = (Inl x, calls)"
      by simp
    from swap_loop_exhausted [OF this] show "attempts_made calls = 10 \<and>
       (\<exists>e b u' cs pre.
          x = Errorf ''all 10 attempts failed to swap token: '' e \<and>
          swap_attempt (env 10) 10 b = (Inl e, u', cs) \<and>
          calls = pre @ cs @ [Sleep (3 * Second)])"
      by (simp add: all_10_attempts_failed)
  qed
  have loop': "swap_loop env (int 10) (3 * Second) (int 0 + 1) (useSharedAccounts_after env 0)
                 None = (result, calls)"
    using loop by simp
  from swap_loop_course [of 0 10 env "3 * Second" None, unfolded loop']
  obtain n where n: "0 < n" "n \<le> 10"
    and failed: "\<forall>k. 0 < k \<and> k < n \<longrightarrow> (\<exists>e. fst (nth_attempt env k) = Inl e)"
    and course: "case fst (nth_attempt env n) of
          Inr sig \<Rightarrow>
            (result, calls) =
              (Inr sig, concat (map ?f [Suc 0..<n]) @ snd (snd (nth_attempt env n)))
        | Inl e \<Rightarrow>
            n = 10 \<and>
            (result, calls) =
              (Inl (all_attempts_failed (int 10) (Some e)), concat (map ?f [Suc 0..<Suc n]))"
    by auto
  have each: "attempts_made (concat (map ?f ks)) = length ks" for ks
    by (rule attempts_made_concat) (rule nth_attempt_made(2))
  have made: "attempts_made calls = n"
  proof (cases "fst (nth_attempt env n)")
    case (Inl e)
    with course have "calls = concat (map ?f [Suc 0..<Suc n])"
      by (simp del: upt_Suc)
    then show ?thesis
      using each [of "[Suc 0..<Suc n]"] by (simp del: upt_Suc)
  next
    case (Inr sig)
    with course have "calls = concat (map ?f [Suc 0..<n]) @ snd (snd (nth_attempt env n))"
      by simp
    then show ?thesis
      using each [of "[Suc 0..<n]"] nth_attempt_made(1) [of env n] n(1)
      by (simp add: attempts_made_append)
  qed
  have shape: "case fst (nth_attempt env n) of
          Inr sig \<Rightarrow>
            result = Inr sig \<and>
            calls = concat (map ?f [1..<n]) @ snd (snd (nth_attempt env n))
        | Inl e \<Rightarrow>
            n = 10 \<and>
            result = Inl (Errorf ''all 10 attempts failed to swap token: '' e) \<and>
            calls = concat (map ?f [1..<Suc n])"
    using course
    by (cases "fst (nth_attempt env n)")
       (simp_all add: all_attempts_failed_def show_int_10 del: upt_Suc)
  have c8: "\<exists>n. 1 \<le> n \<and> n \<le> 10 \<and> attempts_made calls = n \<and>
       (\<forall>k. 1 \<le> k \<and> k < n \<longrightarrow> (\<exists>e. fst (nth_attempt env k) = Inl e)) \<and>
       (case fst (nth_attempt env n) of
          Inr sig \<Rightarrow>
            result = Inr sig \<and>
            calls = concat (map ?f [1..<n]) @ snd (snd (nth_attempt env n))
        | Inl e \<Rightarrow>
            n = 10 \<and>
            result = Inl (Errorf ''all 10 attempts failed to swap token: '' e) \<and>
            calls = concat (map ?f [1..<Suc n]))"
  proof (intro exI [of _ n] conjI)
    show "1 \<le> n" using n(1) by simp
    show "n \<le> 10" by (rule n(2))
    show "attempts_made calls = n" by (rule made)
    show "\<forall>k. 1 \<le> k \<and> k < n \<longrightarrow> (\<exists>e. fst (nth_attempt env k) = Inl e)"
      using failed by simp
    show "case fst (nth_attempt env n) of
          Inr sig \<Rightarrow>
            result = Inr sig \<and>
            calls = concat (map ?f [1..<n]) @ snd (snd (nth_attempt env n))
        | Inl e \<Rightarrow>
            n = 10 \<and>
            result = Inl (Errorf ''all 10 attempts failed to swap token: '' e) \<and>
            calls = concat (map ?f [1..<Suc n])"
      by (rule shape)
  qed
  have c9: "(\<forall>k. 1 \<le> k \<and> k \<le> 10 \<longrightarrow> (\<exists>e. fst (nth_attempt env k) = Inl e)) \<longrightarrow>
       (\<exists>e. fst (nth_attempt env 10) = Inl e \<and>
            result = Inl (Errorf ''all 10 attempts failed to swap token: '' e))"
  proof
    assume all: "\<forall>k. 1 \<le> k \<and> k \<le> 10 \<longrightarrow> (\<exists>e. fst (nth_attempt env k) = Inl e)"
    with n obtain e where e: "fst (nth_attempt env n) = Inl e"
      by force
    with shape have "n = 10"
      and "result = Inl (Errorf ''all 10 attempts failed to swap token: '' e)"
      by simp_all
    with e show "\<exists>e. fst (nth_attempt env 10) = Inl e \<and>
            result = Inl (Errorf ''all 10 attempts failed to swap token: '' e)"
      by blast
  qed
  have c10: "\<forall>sig. result = Inr sig \<longrightarrow>
       (\<exists>k. 1 \<le> k \<and> k \<le> 10 \<and> fst (nth_attempt env k) = Inr sig \<and>
            sendTransactionWithOpts (env (int k)) = Inr sig \<and>
            SendTransaction (int k) \<in> set calls \<and> last calls = SendTransaction (int k))"
  proof (intro allI impI)
    fix sig assume ok: "result = Inr sig"
    have att: "fst (nth_attempt env n) = Inr sig"
      using shape ok by (cases "fst (nth_attempt env n)") simp_all
    with shape have calls: "calls = concat (map ?f [1..<n]) @ snd (snd (nth_attempt env n))"
      by simp
    note acc = nth_attempt_accepted [OF att]
    from acc have "SendTransaction (int n) \<in> set (snd (snd (nth_attempt env n)))"
      using last_in_set [of "snd (snd (nth_attempt env n))"] by simp
    with calls acc have "SendTransaction (int n) \<in> set calls"
      and "last calls = SendTransaction (int n)"
      by simp_all
    with n att acc
    show "\<exists>k. 1 \<le> k \<and> k \<le> 10 \<and> fst (nth_attempt env k) = Inr sig \<and>
            sendTransactionWithOpts (env (int k)) = Inr sig \<and>
            SendTransaction (int k) \<in> set calls \<and> last calls = SendTransaction (int k)"
      by (intro exI [of _ n]) simp
  qed
  have c11: "\<forall>tokenAmount. ParseUint (AmountLpt airdrop) = Inr tokenAmount \<longrightarrow>
       SellToken ParseUint walletKey env lookup config airdrop =
         (case result of
            Inl x \<Rightarrow> (Returns (Some x), calls, [HandleSellError])
          | Inr sig \<Rightarrow>
              (case lookup of
                 LookupFails err \<Rightarrow>
                   (Returns None, calls,
                    [Settle (2 * Second), FeesAndEarnings, HandleSuccessfulSaleWithEstimate])
               | LookupReturns swapFees swapEarnings \<Rightarrow>
                   (Returns None, calls,
                    [Settle (2 * Second), FeesAndEarnings,
                     HandleSuccessfulSale swapFees swapEarnings])
               | LookupPanics \<Rightarrow> (Panics, calls, [Settle (2 * Second), FeesAndEarnings])))"
    using run by (simp add: SellToken_def split: sum.split)
  from c1 c2 c3 c4 c5 c6 c7 c8 c9 c10 c11 show ?thesis
    by (intro conjI)
qed

theorem SellToken_swap_retry_policy_witness:
  "GetWallet None (WalletPrivateKey example_config) = None \<and>
   SwapTokenForSol None venue_env (WalletPrivateKey example_config) =
     (Inr ''3swapsig'',
      [GetSwapQuote 1, GetSwapTransaction 1 True, Sleep (3 * Second),
       GetSwapQuote 2, Sleep (3 * Second),
       GetSwapQuote 3, GetSwapTransaction 3 False, GetBlockhash 3, SendTransaction 3]) \<and>
   SellToken (\<lambda>s. Inr 1000000) None venue_env (LookupReturns 5000 70000) example_config
       (example_airdrop ''A1'' ''0.20'' INil) =
     (Returns None,
      [GetSwapQuote 1, GetSwapTransaction 1 True, Sleep (3 * Second),
       GetSwapQuote 2, Sleep (3 * Second),
       GetSwapQuote 3, GetSwapTransaction 3 False, GetBlockhash 3, SendTransaction 3],
      [Settle (2 * Second), FeesAndEarnings, HandleSuccessfulSale 5000 70000]) \<and>
   fst (SellToken (\<lambda>s. Inr 1000000) None venue_env LookupPanics example_config
          (example_airdrop ''A1'' ''0.20'' INil)) = Panics \<and>
   (\<exists>k. 1 \<le> k \<and> k \<le> 10 \<and> fst (nth_attempt venue_env k) = Inr ''3swapsig'' \<and>
        sendTransactionWithOpts (venue_env (int k)) = Inr ''3swapsig'') \<and>
   list_all (\<lambda>k. fst (nth_attempt offline_env k) =
               Inl (Errorf ''failed to get swap quote: '' (ErrorNew ''i/o timeout''))) [1..<11] \<and>
   fst (SwapTokenForSol None offline_env (WalletPrivateKey example_config)) =
     Inl (Errorf ''all 10 attempts failed to swap token: ''
           (Errorf ''failed to get swap quote: '' (ErrorNew ''i/o timeout''))) \<and>
   attempts_made (snd (SwapTokenForSol None offline_env (WalletPrivateKey example_config))) = 10 \<and>
   fst (SellToken (\<lambda>s. Inr 1000000) None offline_env (LookupReturns 5000 70000) example_config
          (example_airdrop ''A1'' ''0.20'' INil)) =
     Returns (Some (Errorf ''all 10 attempts failed to swap token: ''
           (Errorf ''failed to get swap quote: '' (ErrorNew ''i/o timeout''))))"
proof -
  let ?key = "WalletPrivateKey example_config"
  let ?a = "example_airdrop ''A1'' ''0.20'' INil"
  let ?calls = "[GetSwapQuote 1, GetSwapTransaction 1 True, Sleep (3 * Second),
       GetSwapQuote 2, Sleep (3 * Second),
       GetSwapQuote 3, GetSwapTransaction 3 False, GetBlockhash 3, SendTransaction 3]"
  let ?quote = "Errorf ''failed to get swap quote: '' (ErrorNew ''i/o timeout'')"
  let ?err = "Errorf ''all 10 attempts failed to swap token: '' ?quote"
  let ?off = "SwapTokenForSol None offline_env ?key"
  have wallet: "GetWallet None ?key = None"
    by (simp add: GetWallet_def example_config_def)
  have venue: "SwapTokenForSol None venue_env ?key = (Inr ''3swapsig'', ?calls)"
    by (simp add: SwapTokenForSol_def SwapTokenForSolWithRetries_def GetWallet_def
        swap_loop.simps swap_attempt_def venue_env_def shared_accounts_unsupported_def
        example_config_def)
  have off_run: "?off = (fst ?off, snd ?off)"
    by simp
  have no_quote: "fst (nth_attempt offline_env k) = Inl ?quote" for k
    by (simp add: nth_attempt_def swap_attempt_def offline_env_def)
  have all_fail: "\<forall>k. 1 \<le> k \<and> k \<le> 10 \<longrightarrow> (\<exists>e. fst (nth_attempt offline_env k) = Inl e)"
    using no_quote by simp
  have amount: "(\<lambda>s. Inr 1000000 :: goerror + nat) (AmountLpt ?a) = Inr 1000000"
    by simp
  note v = SellToken_swap_retry_policy
    [where ParseUint = "\<lambda>s. Inr 1000000" and airdrop = ?a and lookup = "LookupReturns 5000 70000",
     OF wallet venue]
  note p = SellToken_swap_retry_policy
    [where ParseUint = "\<lambda>s. Inr 1000000" and airdrop = ?a and lookup = LookupPanics,
     OF wallet venue]
  note f = SellToken_swap_retry_policy
    [where ParseUint = "\<lambda>s. Inr 1000000" and airdrop = ?a and lookup = "LookupReturns 5000 70000",
     OF wallet off_run]
  note tl6 = conjunct2 [THEN conjunct2, THEN conjunct2, THEN conjunct2, THEN conjunct2,
    THEN conjunct2]
  note tl10 = tl6 [THEN conjunct2, THEN conjunct2, THEN conjunct2, THEN conjunct2]
  have sold: "SellToken (\<lambda>s. Inr 1000000) None venue_env (LookupReturns 5000 70000)
                example_config ?a =
              (Returns None, ?calls,
               [Settle (2 * Second), FeesAndEarnings, HandleSuccessfulSale 5000 70000])"
    using v [THEN tl10] amount by simp
  have panics: "fst (SellToken (\<lambda>s. Inr 1000000) None venue_env LookupPanics
                       example_config ?a) = Panics"
    using p [THEN tl10] amount by simp
  from v [THEN tl6, THEN conjunct2, THEN conjunct2, THEN conjunct2, THEN conjunct1]
  have "\<exists>k. 1 \<le> k \<and> k \<le> 10 \<and> fst (nth_attempt venue_env k) = Inr ''3swapsig'' \<and>
            sendTransactionWithOpts (venue_env (int k)) = Inr ''3swapsig'' \<and>
            SendTransaction (int k) \<in> set ?calls \<and> last ?calls = SendTransaction (int k)"
    by (simp del: set_simps last.simps)
  then obtain k where "1 \<le> k" "k \<le> 10" "fst (nth_attempt venue_env k) = Inr ''3swapsig''"
    "sendTransactionWithOpts (venue_env (int k)) = Inr ''3swapsig''"
    by (elim exE conjE)
  then have accepted: "\<exists>k. 1 \<le> k \<and> k \<le> 10 \<and>
        fst (nth_attempt venue_env k) = Inr ''3swapsig'' \<and>
        sendTransactionWithOpts (venue_env (int k)) = Inr ''3swapsig''"
    by (intro exI [of _ k] conjI)
  from f [THEN tl6, THEN conjunct2, THEN conjunct2, THEN conjunct1, THEN mp, OF all_fail]
  obtain e where e: "fst (nth_attempt offline_env 10) = Inl e"
    and wrapped: "fst ?off = Inl (Errorf ''all 10 attempts failed to swap token: '' e)"
    by (elim exE conjE)
  from e no_quote [of 10] have "e = ?quote"
    by simp
  with wrapped have offline: "fst ?off = Inl ?err"
    by simp
  from f [THEN tl6, THEN conjunct1, rule_format, OF offline]
  have made: "attempts_made (snd ?off) = 10"
    by (rule conjunct1)
  have failed: "fst (SellToken (\<lambda>s. Inr 1000000) None offline_env (LookupReturns 5000 70000)
                       example_config ?a) = Returns (Some ?err)"
    using f [THEN tl10] amount offline by simp
  have each_fails: "list_all (\<lambda>k. fst (nth_attempt offline_env k) = Inl ?quote) [1..<11]"
    unfolding list_all_iff using no_quote by blast
  from wallet venue sold panics accepted each_fails offline made failed show ?thesis
    by (intro conjI)
qed

section \<open>Properties of the service\<close>

lemma claimed_mark_claimed [simp]: "claimed (mark_claimed j s) i = (i = j \<or> claimed s i)"
  by (simp add: claimed_def mark_claimed_def)

lemma lastTokenRefresh_mark_claimed [simp]:
  "lastTokenRefresh (mark_claimed j s) = lastTokenRefresh s"
  by (simp add: mark_claimed_def)

lemma isAlreadyClaimed_False:
  "isAlreadyClaimed airdrop s = (False, s1) \<Longrightarrow>
   s1 = s \<and> ClaimedAt airdrop = INil \<and> \<not> claimed s (ID airdrop)"
  by (auto simp: isAlreadyClaimed_def split: if_splits)

lemma isAlreadyClaimed_state:
  "isAlreadyClaimed airdrop s = (b, s1) \<Longrightarrow>
   (claimed s i \<longrightarrow> claimed s1 i) \<and> lastTokenRefresh s1 = lastTokenRefresh s"
  by (auto simp: isAlreadyClaimed_def split: if_splits)

lemma handleStableTokenSale_unclaimed:
  "ClaimedAt airdrop = INil \<Longrightarrow> handleStableTokenSale ParseFloat clock airdrop priceInfo s = []"
  by (simp add: handleStableTokenSale_def)

lemma processAndFilterAirdrops_state:
  "processAndFilterAirdrops ParseFloat config airdrops s = (s', filtered, events) \<Longrightarrow>
   events = [] \<and> (claimed s i \<longrightarrow> claimed s' i) \<and> lastTokenRefresh s' = lastTokenRefresh s"
proof (induction airdrops arbitrary: s s' filtered events)
  case Nil
  then show ?case by simp
next
  case (Cons item airdrops)
  obtain clock airdrop where item: "item = (clock, airdrop)"
    by (cases item)
  obtain b s1 where ac: "isAlreadyClaimed airdrop s = (b, s1)"
    by (cases "isAlreadyClaimed airdrop s")
  note st = isAlreadyClaimed_state [OF ac, of i]
  show ?case
  proof (cases b)
    case True
    with Cons.prems item ac
    have "processAndFilterAirdrops ParseFloat config airdrops s1 = (s', filtered, events)"
      by simp
    from Cons.IH [OF this] st show ?thesis
      by simp
  next
    case False
    from ac False have "isAlreadyClaimed airdrop s = (False, s1)"
      by simp
    from isAlreadyClaimed_False [OF this]
    have s1: "s1 = s" and unclaimed: "ClaimedAt airdrop = INil"
      by simp_all
    define s2 where "s2 = s\<lparr>priceTracker :=
        UpdatePriceData ParseFloat (at_update clock) airdrop (priceTracker s)\<rparr>"
    obtain s3 f3 e3 where rec:
      "processAndFilterAirdrops ParseFloat config airdrops s2 = (s3, f3, e3)"
      by (cases "processAndFilterAirdrops ParseFloat config airdrops s2") auto
    from Cons.IH [OF rec] have ih: "e3 = []" "claimed s2 i \<longrightarrow> claimed s3 i"
      "lastTokenRefresh s3 = lastTokenRefresh s2"
      by simp_all
    have s2: "claimed s2 i = claimed s i" "lastTokenRefresh s2 = lastTokenRefresh s"
      by (simp_all add: s2_def claimed_def)
    from Cons.prems item ac False s1 rec
    have "s' = s3 \<and> events = e3"
      by (auto simp: Let_def s2_def [symmetric]
          handleStableTokenSale_unclaimed [OF unclaimed] split: if_splits)
    with ih s2 show ?thesis
      by simp
  qed
qed

lemma refreshAuthToken_cases:
  assumes "refreshAuthToken config env s = (s1, events)"
  shows "(s1 = s \<and> events = []) \<or>
         (s1 = s \<and> events = [RefreshCalled env] \<and> refresh env \<noteq> None) \<or>
         (s1 = s\<lparr>lastTokenRefresh := Some (at_done env)\<rparr> \<and> events = [RefreshCalled env] \<and>
          refresh env = None)"
  using assms
  by (auto simp: refreshAuthToken_def split: if_splits option.splits)

lemma refreshAuthToken_claimed:
  assumes "refreshAuthToken config env s = (s1, events)"
  shows "claimed s1 i = claimed s i" and "ClaimCalled j \<notin> set events"
    and "claim_calls events = []"
  using refreshAuthToken_cases [OF assms]
  by (auto simp: claimed_def)

lemma handleClaimResult_state:
  "(claimed s i \<longrightarrow> claimed (handleClaimResult airdrop result s) i) \<and>
   lastTokenRefresh (handleClaimResult airdrop result s) = lastTokenRefresh s"
  by (simp add: handleClaimResult_def split: sum.split)

lemma claim_first_claimed:
  "claim_first config env airdrops s = (s', events) \<Longrightarrow> claimed s i \<Longrightarrow>
   claimed s' i \<and> ClaimCalled i \<notin> set events"
proof (induction airdrops arbitrary: s s' events)
  case Nil
  then show ?case by simp
next
  case (Cons airdrop airdrops)
  obtain b s1 where ac: "isAlreadyClaimed airdrop s = (b, s1)"
    by (cases "isAlreadyClaimed airdrop s")
  show ?case
  proof (cases b)
    case True
    with Cons.prems(1) ac have "claim_first config env airdrops s1 = (s', events)"
      by simp
    from Cons.IH [OF this] isAlreadyClaimed_state [OF ac, of i] Cons.prems(2)
    show ?thesis
      by simp
  next
    case False
    with ac have "isAlreadyClaimed airdrop s = (False, s1)"
      by simp
    from isAlreadyClaimed_False [OF this] Cons.prems(2)
    have s1: "s1 = s" and other: "ID airdrop \<noteq> i"
      by auto
    obtain s2 revents where r: "refreshAuthToken config (token_refresh env) s = (s2, revents)"
      by (cases "refreshAuthToken config (token_refresh env) s")
    from Cons.prems ac False s1 r other
      refreshAuthToken_claimed(1,2) [OF r, of i]
      handleClaimResult_state [of s i airdrop] handleClaimResult_state [of s2 i airdrop]
    show ?thesis
      by (auto split: sum.splits if_splits)
  qed
qed

lemma processAirdrops_claimed:
  assumes "processAirdrops ParseFloat config env s = (s', events)" and "claimed s i"
  shows "claimed s' i \<and> ClaimCalled i \<notin> set events"
proof (cases "scan env")
  case (Inl err)
  obtain s2 revents where r: "refreshAuthToken config (token_refresh env) s = (s2, revents)"
    by (cases "refreshAuthToken config (token_refresh env) s")
  from assms Inl r refreshAuthToken_claimed(1,2) [OF r, of i] show ?thesis
    by (auto simp: processAirdrops_def handleScanError_def split: if_splits)
next
  case (Inr valuable)
  obtain s1 filtered sales where
    f: "processAndFilterAirdrops ParseFloat config valuable s = (s1, filtered, sales)"
    by (cases "processAndFilterAirdrops ParseFloat config valuable s") auto
  obtain s2 cevents where c: "claim_first config env filtered s1 = (s2, cevents)"
    by (cases "claim_first config env filtered s1")
  from processAndFilterAirdrops_state [OF f, of i] assms(2)
  have "sales = []" and "claimed s1 i"
    by simp_all
  with claim_first_claimed [OF c, of i] assms(1) Inr f c show ?thesis
    by (auto simp: processAirdrops_def)
qed

lemma sale_finished_claimed:
  assumes "sale_finished config airdrop err env s = (s', events)" and "claimed s i"
  shows "claimed s' i \<and> ClaimCalled i \<notin> set events"
proof (cases err)
  case None
  with assms show ?thesis
    by (auto simp: sale_finished_def)
next
  case (Some e)
  obtain s2 revents where r: "refreshAuthToken config env s = (s2, revents)"
    by (cases "refreshAuthToken config env s")
  from assms Some r refreshAuthToken_claimed(1,2) [OF r, of i] show ?thesis
    by (auto simp: sale_finished_def split: if_splits)
qed

text \<open>
  C5. Once an airdrop ID is in the claimedAirdrops map, no operation of the service (a
  scan cycle, or a sale goroutine finishing) removes it, and no later cycle calls
  ClaimAirdropByID for that ID.
\<close>

theorem claimed_is_permanent:
  "claimed s i \<Longrightarrow> run ParseFloat config ops s = (s', events) \<Longrightarrow>
   claimed s' i \<and> ClaimCalled i \<notin> set events"
proof (induction ops arbitrary: s s' events)
  case Nil
  then show ?case by simp
next
  case (Cons op ops)
  show ?case
  proof (cases op)
    case (Cycle env)
    obtain s1 ev1 where p: "processAirdrops ParseFloat config env s = (s1, ev1)"
      by (cases "processAirdrops ParseFloat config env s")
    obtain s2 later where r: "run ParseFloat config ops s1 = (s2, later)"
      by (cases "run ParseFloat config ops s1")
    from processAirdrops_claimed [OF p Cons.prems(1)]
    have one: "claimed s1 i" "ClaimCalled i \<notin> set ev1"
      by simp_all
    from Cons.IH [OF one(1) r] one(2) Cons.prems(2) Cycle p r show ?thesis
      by auto
  next
    case (SaleFinished airdrop err env)
    obtain s1 ev1 where p: "sale_finished config airdrop err env s = (s1, ev1)"
      by (cases "sale_finished config airdrop err env s")
    obtain s2 later where r: "run ParseFloat config ops s1 = (s2, later)"
      by (cases "run ParseFloat config ops s1")
    from sale_finished_claimed [OF p Cons.prems(1)]
    have one: "claimed s1 i" "ClaimCalled i \<notin> set ev1"
      by simp_all
    from Cons.IH [OF one(1) r] one(2) Cons.prems(2) SaleFinished p r show ?thesis
      by auto
  qed
qed

theorem claimed_is_permanent_witness:
  "claimed (mark_claimed ''A1'' NewService) ''A1'' \<and>
   snd (run ParseFloat_excerpt example_config
          [Cycle (scan_cycle 0 [example_airdrop ''A1'' ''0.75'' INil,
                                example_airdrop ''A2'' ''0.75'' INil]),
           Cycle (scan_cycle (2 * Minute) [example_airdrop ''A1'' ''0.75'' INil,
                                           example_airdrop ''A2'' ''0.75'' INil])]
          (mark_claimed ''A1'' NewService)) =
     [Scanned, ClaimCalled ''A2'', Slept (60 * Second), Slept Minute, Scanned, Slept Minute] \<and>
   claimed (fst (run ParseFloat_excerpt example_config
          [Cycle (scan_cycle 0 [example_airdrop ''A1'' ''0.75'' INil,
                                example_airdrop ''A2'' ''0.75'' INil]),
           Cycle (scan_cycle (2 * Minute) [example_airdrop ''A1'' ''0.75'' INil,
                                           example_airdrop ''A2'' ''0.75'' INil])]
          (mark_claimed ''A1'' NewService))) ''A1'' \<and>
   ClaimCalled ''A1'' \<notin> set (snd (run ParseFloat_excerpt example_config
          [Cycle (scan_cycle 0 [example_airdrop ''A1'' ''0.75'' INil,
                                example_airdrop ''A2'' ''0.75'' INil]),
           Cycle (scan_cycle (2 * Minute) [example_airdrop ''A1'' ''0.75'' INil,
                                           example_airdrop ''A2'' ''0.75'' INil])]
          (mark_claimed ''A1'' NewService)))"
proof -
  let ?ops = "[Cycle (scan_cycle 0 [example_airdrop ''A1'' ''0.75'' INil,
                                    example_airdrop ''A2'' ''0.75'' INil]),
               Cycle (scan_cycle (2 * Minute) [example_airdrop ''A1'' ''0.75'' INil,
                                               example_airdrop ''A2'' ''0.75'' INil])]"
  let ?s = "mark_claimed ''A1'' NewService"
  let ?R = "run ParseFloat_excerpt example_config ?ops ?s"
  have h1: "claimed ?s ''A1''"
    by simp
  have h2: "?R = (fst ?R, snd ?R)"
    by simp
  have trace: "snd ?R =
     [Scanned, ClaimCalled ''A2'', Slept (60 * Second), Slept Minute, Scanned, Slept Minute]"
    by (simp add: processAirdrops_def scan_cycle_def NewService_def mark_claimed_def
        isAlreadyClaimed_def claimed_def example_airdrop_def example_config_def
        ShouldClaim_def ParseFloat_excerpt_def UpdatePriceData_def GetTokenPriceInfo_def
        NewPriceTracker_def clock_at_def handleClaimResult_def Let_def)
  from claimed_is_permanent [OF h1 h2] h1 trace show ?thesis
    by (intro conjI) simp_all
qed

text \<open>
  C1. The claim: for an airdrop of the scan that is not in the claimedAirdrops map, for
  which ShouldClaim is false, whose claimedAt is set and for which ShouldSellDirectly is
  true, the cycle starts an asynchronous SellToken. In the code the loop of
  processAndFilterAirdrops asks isAlreadyClaimed first, which marks every airdrop with
  claimedAt set and skips it, so handleStableTokenSale is only reached with claimedAt
  nil and returns at once: no cycle ever starts a sale. The theorem runs a cycle on an
  airdrop that meets every condition of the claim: it is marked and no sale is started.
\<close>

theorem direct_sell_never_reached:
  "\<not> claimed tracking_service ''A1'' \<and>
   \<not> ShouldClaim ParseFloat_excerpt example_config (10 * Minute) (10 * Minute)
       (example_airdrop ''A1'' ''0.20'' (IString ''2025-05-01T10:00:00Z''))
       (GetTokenPriceInfo (priceTracker tracking_service) ''A1'') \<and>
   ClaimedAt (example_airdrop ''A1'' ''0.20'' (IString ''2025-05-01T10:00:00Z'')) \<noteq> INil \<and>
   ShouldSellDirectly ParseFloat_excerpt (10 * Minute) (10 * Minute)
       (example_airdrop ''A1'' ''0.20'' (IString ''2025-05-01T10:00:00Z''))
       (GetTokenPriceInfo (priceTracker tracking_service) ''A1'') \<and>
   processAirdrops ParseFloat_excerpt example_config
       (scan_cycle (10 * Minute)
          [example_airdrop ''A1'' ''0.20'' (IString ''2025-05-01T10:00:00Z'')])
       tracking_service =
     (mark_claimed ''A1'' tracking_service, [Scanned])"
  by (simp add: processAirdrops_def scan_cycle_def isAlreadyClaimed_def claimed_def
      tracking_service_def example_airdrop_def example_config_def
      ShouldClaim_def ShouldSellDirectly_def ParseFloat_excerpt_def GetTokenPriceInfo_def
      usd_0_07_def usd_0_10_def Since_def Minute_def Second_def maxDuration_def
      minDuration_def Let_def)

lemma thirty_minutes:
  "(\<not> Since now t < 30 * Minute) = (now - t \<ge> 30 * Minute)"
  using Since_ge_iff [of "30 * Minute" now t]
  by (simp add: Minute_def Second_def maxDuration_def minDuration_def not_less)

lemma refreshAuthToken_throttle:
  assumes "refreshAuthToken config env s = (s1, events)"
    and "RefreshCalled r \<in> set events"
  shows "r = env \<and> events = [RefreshCalled env] \<and>
         TokenManager config \<and> WalletPrivateKey config \<noteq> [] \<and>
         (\<forall>t. lastTokenRefresh s = Some t \<longrightarrow> at_check env - t \<ge> 30 * Minute)"
  using assms
  by (auto simp: refreshAuthToken_def thirty_minutes [symmetric]
      split: if_splits option.splits)

lemma refreshAuthToken_due:
  assumes "TokenManager config" and "WalletPrivateKey config \<noteq> []"
    and "\<forall>t. lastTokenRefresh s = Some t \<longrightarrow> at_check env - t \<ge> 30 * Minute"
  shows "snd (refreshAuthToken config env s) = [RefreshCalled env]"
  using assms
  by (auto simp: refreshAuthToken_def thirty_minutes split: option.splits)

lemma refreshAuthToken_recorded:
  assumes "refreshAuthToken config env s = (s1, events)"
  shows "lastTokenRefresh s1 =
           (case last_refreshed events of Some d \<Rightarrow> Some d | None \<Rightarrow> lastTokenRefresh s)"
  using refreshAuthToken_cases [OF assms]
  by auto

lemma last_refreshed_append:
  "last_refreshed (xs @ ys) =
     (case last_refreshed ys of Some d \<Rightarrow> Some d | None \<Rightarrow> last_refreshed xs)"
  by (induction xs rule: last_refreshed.induct) (auto split: option.splits)

lemma claim_calls_append: "claim_calls (xs @ ys) = claim_calls xs @ claim_calls ys"
  by (induction xs rule: claim_calls.induct) simp_all

lemma refreshAuthToken_events:
  assumes "refreshAuthToken config env s = (s1, events)"
  shows "claim_calls events = []" and "Scanned \<notin> set events"
    and "count_list events (RefreshCalled r) \<le> 1"
  using refreshAuthToken_cases [OF assms]
  by auto

lemma claim_first_cases:
  "claim_first config env airdrops s = (s', events) \<Longrightarrow>
   (events = [] \<and> lastTokenRefresh s' = lastTokenRefresh s) \<or>
   (\<exists>airdrop s1. lastTokenRefresh s1 = lastTokenRefresh s \<and>
      ((\<exists>err s2 revents. claim env = Inl err \<and> auth_related err \<and>
          refreshAuthToken config (token_refresh env) s1 = (s2, revents) \<and>
          s' = handleClaimResult airdrop (claim_retry env) s2 \<and>
          events = ClaimCalled (ID airdrop) # revents @
                     [ClaimCalled (ID airdrop), Slept (60 * Second)]) \<or>
       (\<not> (\<exists>err. claim env = Inl err \<and> auth_related err) \<and>
          s' = handleClaimResult airdrop (claim env) s1 \<and>
          events = [ClaimCalled (ID airdrop), Slept (60 * Second)])))"
proof (induction airdrops arbitrary: s s' events)
  case Nil
  then show ?case by simp
next
  case (Cons airdrop airdrops)
  obtain b s1 where ac: "isAlreadyClaimed airdrop s = (b, s1)"
    by (cases "isAlreadyClaimed airdrop s")
  note keep = isAlreadyClaimed_state [OF ac, of "ID airdrop", THEN conjunct2]
  show ?case
  proof (cases b)
    case True
    with Cons.prems ac have "claim_first config env airdrops s1 = (s', events)"
      by simp
    from Cons.IH [OF this] keep show ?thesis
      by simp
  next
    case False
    obtain s2 revents where r: "refreshAuthToken config (token_refresh env) s1 = (s2, revents)"
      by (cases "refreshAuthToken config (token_refresh env) s1")
    show ?thesis
    proof (cases "\<exists>err. claim env = Inl err \<and> auth_related err")
      case True
      then obtain err where err: "claim env = Inl err" "auth_related err"
        by blast
      with Cons.prems ac False r
      have "s' = handleClaimResult airdrop (claim_retry env) s2"
        and "events = ClaimCalled (ID airdrop) # revents @
                     [ClaimCalled (ID airdrop), Slept (60 * Second)]"
        by simp_all
      with keep err r show ?thesis
        by blast
    next
      case none: False
      with Cons.prems ac False
      have "s' = handleClaimResult airdrop (claim env) s1"
        and "events = [ClaimCalled (ID airdrop), Slept (60 * Second)]"
        by (auto split: sum.splits)
      with keep none show ?thesis
        by blast
    qed
  qed
qed

lemma claim_first_policy:
  assumes run: "claim_first config env airdrops s = (s', events)"
  shows "Scanned \<notin> set events"
    and "claim_calls events = [] \<or>
         (\<exists>i. claim_calls events =
            (if (\<exists>err. claim env = Inl err \<and> auth_related err) then [i, i] else [i]))"
    and "count_list events (RefreshCalled r) \<le> 1"
    and "RefreshCalled r \<in> set events \<longrightarrow>
         r = token_refresh env \<and> TokenManager config \<and> WalletPrivateKey config \<noteq> [] \<and>
         (\<forall>t. lastTokenRefresh s = Some t \<longrightarrow> at_check r - t \<ge> 30 * Minute) \<and>
         (\<exists>err i. claim env = Inl err \<and> auth_related err \<and> claim_calls events = [i, i])"
    and "claim_calls events \<noteq> [] \<and> (\<exists>err. claim env = Inl err \<and> auth_related err) \<and>
         TokenManager config \<and> WalletPrivateKey config \<noteq> [] \<and>
         (\<forall>t. lastTokenRefresh s = Some t \<longrightarrow>
              at_check (token_refresh env) - t \<ge> 30 * Minute) \<longrightarrow>
         RefreshCalled (token_refresh env) \<in> set events"
    and "lastTokenRefresh s' =
           (case last_refreshed events of Some d \<Rightarrow> Some d | None \<Rightarrow> lastTokenRefresh s)"
proof -
  consider (idle) "events = []" "lastTokenRefresh s' = lastTokenRefresh s"
    | (retried) airdrop s1 err s2 revents where
        "lastTokenRefresh s1 = lastTokenRefresh s"
        "claim env = Inl err" "auth_related err"
        "refreshAuthToken config (token_refresh env) s1 = (s2, revents)"
        "s' = handleClaimResult airdrop (claim_retry env) s2"
        "events = ClaimCalled (ID airdrop) # revents @
                    [ClaimCalled (ID airdrop), Slept (60 * Second)]"
    | (once) airdrop s1 where
        "lastTokenRefresh s1 = lastTokenRefresh s"
        "\<not> (\<exists>err. claim env = Inl err \<and> auth_related err)"
        "s' = handleClaimResult airdrop (claim env) s1"
        "events = [ClaimCalled (ID airdrop), Slept (60 * Second)]"
    using claim_first_cases [OF run] by blast
  then have all: "Scanned \<notin> set events \<and>
     (claim_calls events = [] \<or>
         (\<exists>i. claim_calls events =
            (if (\<exists>err. claim env = Inl err \<and> auth_related err) then [i, i] else [i]))) \<and>
     count_list events (RefreshCalled r) \<le> 1 \<and>
     (RefreshCalled r \<in> set events \<longrightarrow>
         r = token_refresh env \<and> TokenManager config \<and> WalletPrivateKey config \<noteq> [] \<and>
         (\<forall>t. lastTokenRefresh s = Some t \<longrightarrow> at_check r - t \<ge> 30 * Minute) \<and>
         (\<exists>err i. claim env = Inl err \<and> auth_related err \<and> claim_calls events = [i, i])) \<and>
     (claim_calls events \<noteq> [] \<and> (\<exists>err. claim env = Inl err \<and> auth_related err) \<and>
         TokenManager config \<and> WalletPrivateKey config \<noteq> [] \<and>
         (\<forall>t. lastTokenRefresh s = Some t \<longrightarrow>
              at_check (token_refresh env) - t \<ge> 30 * Minute) \<longrightarrow>
         RefreshCalled (token_refresh env) \<in> set events) \<and>
     lastTokenRefresh s' =
           (case last_refreshed events of Some d \<Rightarrow> Some d | None \<Rightarrow> lastTokenRefresh s)"
  proof cases
    case idle
    then show ?thesis by simp
  next
    case retried
    note ev = refreshAuthToken_events [OF retried(4)]
    have calls: "claim_calls events = [ID airdrop, ID airdrop]"
      using retried(6) ev(1) by (simp add: claim_calls_append)
    have a: "Scanned \<notin> set events"
      using retried(6) ev(2) by simp
    have c: "count_list events (RefreshCalled r) \<le> 1"
      using retried(6) ev(3) [of r] by simp
    have d: "RefreshCalled r \<in> set events \<longrightarrow>
         r = token_refresh env \<and> TokenManager config \<and> WalletPrivateKey config \<noteq> [] \<and>
         (\<forall>t. lastTokenRefresh s = Some t \<longrightarrow> at_check r - t \<ge> 30 * Minute) \<and>
         (\<exists>err i. claim env = Inl err \<and> auth_related err \<and> claim_calls events = [i, i])"
    proof
      assume "RefreshCalled r \<in> set events"
      with retried(6) have "RefreshCalled r \<in> set revents"
        by simp
      from refreshAuthToken_throttle [OF retried(4) this] retried(1,2,3) calls
      show "r = token_refresh env \<and> TokenManager config \<and> WalletPrivateKey config \<noteq> [] \<and>
         (\<forall>t. lastTokenRefresh s = Some t \<longrightarrow> at_check r - t \<ge> 30 * Minute) \<and>
         (\<exists>err i. claim env = Inl err \<and> auth_related err \<and> claim_calls events = [i, i])"
        by simp
    qed
    have e: "claim_calls events \<noteq> [] \<and> (\<exists>err. claim env = Inl err \<and> auth_related err) \<and>
         TokenManager config \<and> WalletPrivateKey config \<noteq> [] \<and>
         (\<forall>t. lastTokenRefresh s = Some t \<longrightarrow>
              at_check (token_refresh env) - t \<ge> 30 * Minute) \<longrightarrow>
         RefreshCalled (token_refresh env) \<in> set events"
    proof
      assume h: "claim_calls events \<noteq> [] \<and> (\<exists>err. claim env = Inl err \<and> auth_related err) \<and>
         TokenManager config \<and> WalletPrivateKey config \<noteq> [] \<and>
         (\<forall>t. lastTokenRefresh s = Some t \<longrightarrow>
              at_check (token_refresh env) - t \<ge> 30 * Minute)"
      then have "snd (refreshAuthToken config (token_refresh env) s1) =
                   [RefreshCalled (token_refresh env)]"
        using retried(1) by (intro refreshAuthToken_due) simp_all
      with retried(4,6) show "RefreshCalled (token_refresh env) \<in> set events"
        by simp
    qed
    have f: "lastTokenRefresh s' =
           (case last_refreshed events of Some d \<Rightarrow> Some d | None \<Rightarrow> lastTokenRefresh s)"
      using refreshAuthToken_recorded [OF retried(4)] retried(1,5,6)
        handleClaimResult_state [of s2 "ID airdrop" airdrop "claim_retry env"]
      by (simp add: last_refreshed_append split: option.splits)
    from a calls c d e f retried(2,3) show ?thesis
      by auto
  next
    case once
    then show ?thesis
      using handleClaimResult_state [of s1 "ID airdrop" airdrop "claim env"]
      by simp
  qed
  from all show "Scanned \<notin> set events" by simp
  from all show "claim_calls events = [] \<or>
         (\<exists>i. claim_calls events =
            (if (\<exists>err. claim env = Inl err \<and> auth_related err) then [i, i] else [i]))"
    by simp
  from all show "count_list events (RefreshCalled r) \<le> 1" by simp
  from all show "RefreshCalled r \<in> set events \<longrightarrow>
         r = token_refresh env \<and> TokenManager config \<and> WalletPrivateKey config \<noteq> [] \<and>
         (\<forall>t. lastTokenRefresh s = Some t \<longrightarrow> at_check r - t \<ge> 30 * Minute) \<and>
         (\<exists>err i. claim env = Inl err \<and> auth_related err \<and> claim_calls events = [i, i])"
    by simp
  from all show "claim_calls events \<noteq> [] \<and> (\<exists>err. claim env = Inl err \<and> auth_related err) \<and>
         TokenManager config \<and> WalletPrivateKey config \<noteq> [] \<and>
         (\<forall>t. lastTokenRefresh s = Some t \<longrightarrow>
              at_check (token_refresh env) - t \<ge> 30 * Minute) \<longrightarrow>
         RefreshCalled (token_refresh env) \<in> set events"
    by simp
  from all show "lastTokenRefresh s' =
           (case last_refreshed events of Some d \<Rightarrow> Some d | None \<Rightarrow> lastTokenRefresh s)"
    by simp
qed

lemma refreshAuthToken_never_sells:
  "SellStarted airdrop \<notin> set (snd (refreshAuthToken config env s))"
  by (simp add: refreshAuthToken_def split: option.split)

lemma refreshAuthToken_starts_no_sale:
  "refreshAuthToken config env s = (s', events) \<Longrightarrow> SellStarted airdrop \<notin> set events"
  using refreshAuthToken_never_sells [of airdrop config env s] by simp

lemma claim_first_never_sells:
  "SellStarted airdrop \<notin> set (snd (claim_first config env airdrops s))"
proof -
  obtain s' events where c: "claim_first config env airdrops s = (s', events)"
    by (cases "claim_first config env airdrops s")
  have "SellStarted airdrop \<notin> set events"
    using claim_first_cases [OF c]
    by (auto dest: refreshAuthToken_starts_no_sale)
  with c show ?thesis
    by simp
qed

lemma processAirdrops_never_sells:
  "SellStarted airdrop \<notin> set (snd (processAirdrops ParseFloat config env s))"
proof (cases "scan env")
  case (Inl err)
  then show ?thesis
    using refreshAuthToken_never_sells [of airdrop config "token_refresh env" s]
    by (simp add: processAirdrops_def handleScanError_def case_prod_unfold)
next
  case (Inr valuable)
  obtain s1 filtered sales where
    f: "processAndFilterAirdrops ParseFloat config valuable s = (s1, filtered, sales)"
    by (cases "processAndFilterAirdrops ParseFloat config valuable s") auto
  from processAndFilterAirdrops_state [OF f, of "[]"] have "sales = []"
    by simp
  with Inr f claim_first_never_sells [of airdrop config env filtered s1] show ?thesis
    by (simp add: processAirdrops_def case_prod_unfold)
qed

lemma handleScanError_events:
  "claim_calls (handleScanError err) = []" "Scanned \<notin> set (handleScanError err)"
  "RefreshCalled r \<notin> set (handleScanError err)" "last_refreshed (handleScanError err) = None"
  "count_list (handleScanError err) e \<le> 1"
  by (simp_all add: handleScanError_def)

lemma processAirdrops_policy:
  assumes run: "processAirdrops ParseFloat config env s = (s', events)"
  shows "count_list events Scanned = 1 \<and>
     (claim_calls events = [] \<or>
         (\<exists>i. claim_calls events =
            (if (\<exists>err. claim env = Inl err \<and> auth_related err) then [i, i] else [i]))) \<and>
     ((\<exists>err. scan env = Inl err) \<longrightarrow> claim_calls events = []) \<and>
     count_list events (RefreshCalled r) \<le> 1 \<and>
     (RefreshCalled r \<in> set events \<longrightarrow>
         r = token_refresh env \<and> TokenManager config \<and> WalletPrivateKey config \<noteq> [] \<and>
         (\<forall>t. lastTokenRefresh s = Some t \<longrightarrow> at_check r - t \<ge> 30 * Minute) \<and>
         ((\<exists>err. scan env = Inl err \<and> auth_related err) \<or>
          (\<exists>err i. claim env = Inl err \<and> auth_related err \<and> claim_calls events = [i, i]))) \<and>
     (((\<exists>err. scan env = Inl err \<and> auth_related err) \<or>
       (claim_calls events \<noteq> [] \<and> (\<exists>err. claim env = Inl err \<and> auth_related err))) \<and>
         TokenManager config \<and> WalletPrivateKey config \<noteq> [] \<and>
         (\<forall>t. lastTokenRefresh s = Some t \<longrightarrow>
              at_check (token_refresh env) - t \<ge> 30 * Minute) \<longrightarrow>
         RefreshCalled (token_refresh env) \<in> set events) \<and>
     lastTokenRefresh s' =
           (case last_refreshed events of Some d \<Rightarrow> Some d | None \<Rightarrow> lastTokenRefresh s)"
proof (cases "scan env")
  case (Inl err)
  note hs = handleScanError_events [where err = err]
  show ?thesis
  proof (cases "auth_related err")
    case True
    obtain s2 revents where r: "refreshAuthToken config (token_refresh env) s = (s2, revents)"
      by (cases "refreshAuthToken config (token_refresh env) s")
    from run Inl True r have s': "s' = s2"
      and ev: "events = Scanned # revents @ handleScanError err"
      by (simp_all add: processAirdrops_def)
    note re = refreshAuthToken_events [OF r]
    have a: "count_list events Scanned = 1"
      using ev re(2) hs(2) by (simp add: count_list_0_iff)
    have b: "claim_calls events = []"
      using ev re(1) hs(1) by (simp add: claim_calls_append)
    have c: "count_list events (RefreshCalled r) \<le> 1"
      using ev re(3) [of r] hs(3) [where r = r] by (simp add: count_list_0_iff)
    have d: "RefreshCalled r \<in> set events \<longrightarrow>
         r = token_refresh env \<and> TokenManager config \<and> WalletPrivateKey config \<noteq> [] \<and>
         (\<forall>t. lastTokenRefresh s = Some t \<longrightarrow> at_check r - t \<ge> 30 * Minute)"
    proof
      assume "RefreshCalled r \<in> set events"
      with ev hs(3) [where r = r] have "RefreshCalled r \<in> set revents"
        by simp
      from refreshAuthToken_throttle [OF r this]
      show "r = token_refresh env \<and> TokenManager config \<and> WalletPrivateKey config \<noteq> [] \<and>
         (\<forall>t. lastTokenRefresh s = Some t \<longrightarrow> at_check r - t \<ge> 30 * Minute)"
        by simp
    qed
    have e: "TokenManager config \<and> WalletPrivateKey config \<noteq> [] \<and>
         (\<forall>t. lastTokenRefresh s = Some t \<longrightarrow>
              at_check (token_refresh env) - t \<ge> 30 * Minute) \<longrightarrow>
         RefreshCalled (token_refresh env) \<in> set events"
    proof
      assume "TokenManager config \<and> WalletPrivateKey config \<noteq> [] \<and>
         (\<forall>t. lastTokenRefresh s = Some t \<longrightarrow>
              at_check (token_refresh env) - t \<ge> 30 * Minute)"
      then have "snd (refreshAuthToken config (token_refresh env) s) =
                   [RefreshCalled (token_refresh env)]"
        by (intro refreshAuthToken_due) simp_all
      with r ev show "RefreshCalled (token_refresh env) \<in> set events"
        by simp
    qed
    have f: "lastTokenRefresh s' =
           (case last_refreshed events of Some d \<Rightarrow> Some d | None \<Rightarrow> lastTokenRefresh s)"
      using refreshAuthToken_recorded [OF r] s' ev hs(4)
      by (simp add: last_refreshed_append)
    from a b c d e f Inl True show ?thesis
      by simp
  next
    case False
    with run Inl have "s' = s" and "events = Scanned # handleScanError err"
      by (simp_all add: processAirdrops_def)
    with hs Inl False show ?thesis
      by (simp add: count_list_0_iff)
  qed
next
  case (Inr valuable)
  obtain s1 filtered sales where
    f: "processAndFilterAirdrops ParseFloat config valuable s = (s1, filtered, sales)"
    by (cases "processAndFilterAirdrops ParseFloat config valuable s") auto
  obtain s2 cevents where c: "claim_first config env filtered s1 = (s2, cevents)"
    by (cases "claim_first config env filtered s1")
  from processAndFilterAirdrops_state [OF f, of "[]"]
  have sales: "sales = []" and keep: "lastTokenRefresh s1 = lastTokenRefresh s"
    by simp_all
  from run Inr f c sales have s': "s' = s2" and ev: "events = Scanned # cevents"
    by (simp_all add: processAirdrops_def)
  note p = claim_first_policy [OF c, unfolded keep]
  have a: "count_list events Scanned = 1"
    using ev p(1) by (simp add: count_list_0_iff)
  from p(2) p(3) [of r] p(4) [of r] p(5,6) a ev s' keep Inr show ?thesis
    by simp
qed

lemma sale_finished_recorded:
  assumes "sale_finished config airdrop err env s = (s', events)"
  shows "lastTokenRefresh s' =
           (case last_refreshed events of Some d \<Rightarrow> Some d | None \<Rightarrow> lastTokenRefresh s)"
proof (cases err)
  case None
  with assms show ?thesis
    by (auto simp: sale_finished_def)
next
  case (Some e)
  obtain s2 revents where r: "refreshAuthToken config env s = (s2, revents)"
    by (cases "refreshAuthToken config env s")
  from assms Some r refreshAuthToken_recorded [OF r] show ?thesis
    by (auto simp: sale_finished_def split: if_splits)
qed

lemma run_recorded:
  "run ParseFloat config ops s = (s', events) \<Longrightarrow>
   lastTokenRefresh s' =
     (case last_refreshed events of Some d \<Rightarrow> Some d | None \<Rightarrow> lastTokenRefresh s)"
proof (induction ops arbitrary: s s' events)
  case Nil
  then show ?case by simp
next
  case (Cons op ops)
  show ?case
  proof (cases op)
    case (Cycle env)
    obtain s1 ev1 where p: "processAirdrops ParseFloat config env s = (s1, ev1)"
      by (cases "processAirdrops ParseFloat config env s")
    obtain s2 later where r: "run ParseFloat config ops s1 = (s2, later)"
      by (cases "run ParseFloat config ops s1")
    from processAirdrops_policy [OF p]
    have one: "lastTokenRefresh s1 =
           (case last_refreshed ev1 of Some d \<Rightarrow> Some d | None \<Rightarrow> lastTokenRefresh s)"
      by simp
    from Cons.IH [OF r] one Cons.prems Cycle p r show ?thesis
      by (auto simp: last_refreshed_append split: option.splits)
  next
    case (SaleFinished airdrop err env)
    obtain s1 ev1 where p: "sale_finished config airdrop err env s = (s1, ev1)"
      by (cases "sale_finished config airdrop err env s")
    obtain s2 later where r: "run ParseFloat config ops s1 = (s2, later)"
      by (cases "run ParseFloat config ops s1")
    from Cons.IH [OF r] sale_finished_recorded [OF p] Cons.prems SaleFinished p r
    show ?thesis
      by (auto simp: last_refreshed_append split: option.splits)
  qed
qed

text \<open>
  C7, as the code has it. In every cycle the scan is made once and never retried. When the scan
  fails with an error whose text contains unauthorized, auth or token (in any case), or
  when the claim does, refreshAuthToken is called: it calls config.RefreshAuthToken at
  most once in the cycle, and only if the token manager and the private key are set and
  no refresh has succeeded during the 30 minutes before (the window starts at a
  successful refresh only, so after a failed one the next qualifying error refreshes
  again); when these conditions hold it does call it. After a claim error of that kind
  the claim is called a second time in the same cycle and not a third, whether the
  refresh ran, succeeded or was skipped; any other claim is called once.
\<close>

theorem auth_refresh_policy:
  assumes history: "run ParseFloat config ops NewService = (s, before)"
    and cycle: "processAirdrops ParseFloat config env s = (s', events)"
  shows "count_list events Scanned = 1 \<and>
     (claim_calls events = [] \<or>
         (\<exists>i. claim_calls events =
            (if (\<exists>err. claim env = Inl err \<and> auth_related err) then [i, i] else [i]))) \<and>
     ((\<exists>err. scan env = Inl err) \<longrightarrow> claim_calls events = []) \<and>
     (\<forall>r. count_list events (RefreshCalled r) \<le> 1) \<and>
     (\<forall>r. RefreshCalled r \<in> set events \<longrightarrow>
         r = token_refresh env \<and> TokenManager config \<and> WalletPrivateKey config \<noteq> [] \<and>
         (\<forall>t. last_refreshed before = Some t \<longrightarrow> at_check r - t \<ge> 30 * Minute) \<and>
         ((\<exists>err. scan env = Inl err \<and> auth_related err) \<or>
          (\<exists>err i. claim env = Inl err \<and> auth_related err \<and> claim_calls events = [i, i]))) \<and>
     (((\<exists>err. scan env = Inl err \<and> auth_related err) \<or>
       (claim_calls events \<noteq> [] \<and> (\<exists>err. claim env = Inl err \<and> auth_related err))) \<and>
         TokenManager config \<and> WalletPrivateKey config \<noteq> [] \<and>
         (\<forall>t. last_refreshed before = Some t \<longrightarrow>
              at_check (token_refresh env) - t \<ge> 30 * Minute) \<longrightarrow>
         RefreshCalled (token_refresh env) \<in> set events) \<and>
     last_refreshed (before @ events) = lastTokenRefresh s'"
proof -
  from run_recorded [OF history] have s: "lastTokenRefresh s = last_refreshed before"
    by (simp add: NewService_def split: option.splits)
  note pol = processAirdrops_policy [OF cycle, unfolded s]
  have c1: "count_list events Scanned = 1"
    using pol [of undefined] by simp
  have c2: "claim_calls events = [] \<or>
         (\<exists>i. claim_calls events =
            (if (\<exists>err. claim env = Inl err \<and> auth_related err) then [i, i] else [i]))"
    using pol [of undefined] by simp
  have c3: "(\<exists>err. scan env = Inl err) \<longrightarrow> claim_calls events = []"
    using pol [of undefined] by simp
  have c4: "\<forall>r. count_list events (RefreshCalled r) \<le> 1"
  proof
    fix r show "count_list events (RefreshCalled r) \<le> 1"
      using pol [of r] by simp
  qed
  have c5: "\<forall>r. RefreshCalled r \<in> set events \<longrightarrow>
         r = token_refresh env \<and> TokenManager config \<and> WalletPrivateKey config \<noteq> [] \<and>
         (\<forall>t. last_refreshed before = Some t \<longrightarrow> at_check r - t \<ge> 30 * Minute) \<and>
         ((\<exists>err. scan env = Inl err \<and> auth_related err) \<or>
          (\<exists>err i. claim env = Inl err \<and> auth_related err \<and> claim_calls events = [i, i]))"
  proof
    fix r show "RefreshCalled r \<in> set events \<longrightarrow>
         r = token_refresh env \<and> TokenManager config \<and> WalletPrivateKey config \<noteq> [] \<and>
         (\<forall>t. last_refreshed before = Some t \<longrightarrow> at_check r - t \<ge> 30 * Minute) \<and>
         ((\<exists>err. scan env = Inl err \<and> auth_related err) \<or>
          (\<exists>err i. claim env = Inl err \<and> auth_related err \<and> claim_calls events = [i, i]))"
      using pol [of r] by simp
  qed
  have c6: "((\<exists>err. scan env = Inl err \<and> auth_related err) \<or>
       (claim_calls events \<noteq> [] \<and> (\<exists>err. claim env = Inl err \<and> auth_related err))) \<and>
         TokenManager config \<and> WalletPrivateKey config \<noteq> [] \<and>
         (\<forall>t. last_refreshed before = Some t \<longrightarrow>
              at_check (token_refresh env) - t \<ge> 30 * Minute) \<longrightarrow>
         RefreshCalled (token_refresh env) \<in> set events"
    using pol [of undefined] by simp
  have c7: "last_refreshed (before @ events) = lastTokenRefresh s'"
    using pol [of undefined]
    by (simp add: last_refreshed_append split: option.splits)
  from c1 c2 c3 c4 c5 c6 c7 show ?thesis
    by (intro conjI)
qed

lemma refused_error_auth: "auth_related refused_error"
  by code_simp

lemma refused_error_backoff: "handleScanError refused_error = [Slept (30 * Second)]"
  by code_simp

lemma expired_error_auth: "auth_related expired_error"
  by code_simp

theorem auth_refresh_policy_witness:
  "run ParseFloat_excerpt example_config [] NewService = (NewService, []) \<and>
   claim (expired_cycle 0 [example_airdrop ''A1'' ''0.75'' INil]) = Inl expired_error \<and>
   auth_related expired_error \<and>
   TokenManager example_config \<and> WalletPrivateKey example_config \<noteq> [] \<and>
   RefreshCalled (token_refresh (expired_cycle 0 [example_airdrop ''A1'' ''0.75'' INil]))
     \<in> set (snd (processAirdrops ParseFloat_excerpt example_config
          (expired_cycle 0 [example_airdrop ''A1'' ''0.75'' INil]) NewService)) \<and>
   snd (processAirdrops ParseFloat_excerpt example_config
          (expired_cycle 0 [example_airdrop ''A1'' ''0.75'' INil]) NewService) =
     [Scanned, ClaimCalled ''A1'', RefreshCalled (token_refresh (expired_cycle 0 [])),
      ClaimCalled ''A1'', Slept (60 * Second)] \<and>
   snd (run ParseFloat_excerpt example_config
          [Cycle (expired_cycle 0 [example_airdrop ''A1'' ''0.75'' INil])] NewService) =
     [Scanned, ClaimCalled ''A1'', RefreshCalled (token_refresh (expired_cycle 0 [])),
      ClaimCalled ''A1'', Slept (60 * Second), Slept Minute] \<and>
   snd (processAirdrops ParseFloat_excerpt example_config
          (expired_cycle (10 * Minute) [example_airdrop ''A2'' ''0.75'' INil])
          (fst (run ParseFloat_excerpt example_config
             [Cycle (expired_cycle 0 [example_airdrop ''A1'' ''0.75'' INil])] NewService))) =
     [Scanned, ClaimCalled ''A2'', ClaimCalled ''A2'', Slept (60 * Second)] \<and>
   lastTokenRefresh (fst (processAirdrops ParseFloat_excerpt example_config
          (expired_cycle (10 * Minute) [example_airdrop ''A2'' ''0.75'' INil])
          (fst (run ParseFloat_excerpt example_config
             [Cycle (expired_cycle 0 [example_airdrop ''A1'' ''0.75'' INil])] NewService)))) =
     Some 0"
proof -
  let ?first = "expired_cycle 0 [example_airdrop ''A1'' ''0.75'' INil]"
  let ?F = "processAirdrops ParseFloat_excerpt example_config ?first NewService"
  let ?ops = "[Cycle ?first]"
  let ?R = "run ParseFloat_excerpt example_config ?ops NewService"
  let ?env = "expired_cycle (10 * Minute) [example_airdrop ''A2'' ''0.75'' INil]"
  let ?C = "processAirdrops ParseFloat_excerpt example_config ?env (fst ?R)"
  have start: "run ParseFloat_excerpt example_config [] NewService = (NewService, [])"
    by simp
  have first: "?F = (fst ?F, snd ?F)"
    by simp
  have err: "claim ?first = Inl expired_error"
    by (simp add: expired_cycle_def)
  have calls: "claim_calls (snd ?F) = [''A1'', ''A1'']"
    by (simp add: processAirdrops_def expired_cycle_def NewService_def mark_claimed_def
        isAlreadyClaimed_def claimed_def example_airdrop_def example_config_def
        ShouldClaim_def ParseFloat_excerpt_def UpdatePriceData_def GetTokenPriceInfo_def
        NewPriceTracker_def clock_at_def handleClaimResult_def Let_def
        expired_error_auth refreshAuthToken_def)
  have due: "TokenManager example_config \<and> WalletPrivateKey example_config \<noteq> [] \<and>
             (\<forall>t. last_refreshed [] = Some t \<longrightarrow> at_check (token_refresh ?first) - t \<ge> 30 * Minute)"
    by (simp add: example_config_def)
  have tr: "token_refresh ?first = token_refresh (expired_cycle 0 [])"
    by (simp add: expired_cycle_def)
  note p = auth_refresh_policy [OF start first]
  have ex: "\<exists>err. claim ?first = Inl err \<and> auth_related err"
    using err expired_error_auth by blast
  have called: "RefreshCalled (token_refresh ?first) \<in> set (snd ?F)"
  proof (rule p [THEN conjunct2, THEN conjunct2, THEN conjunct2, THEN conjunct2,
                 THEN conjunct2, THEN conjunct1, THEN mp])
    from ex calls due
    show "((\<exists>err. scan ?first = Inl err \<and> auth_related err) \<or>
           (claim_calls (snd ?F) \<noteq> [] \<and> (\<exists>err. claim ?first = Inl err \<and> auth_related err))) \<and>
          TokenManager example_config \<and> WalletPrivateKey example_config \<noteq> [] \<and>
          (\<forall>t. last_refreshed [] = Some t \<longrightarrow>
               at_check (token_refresh ?first) - t \<ge> 30 * Minute)"
      by simp
  qed
  have throttle: "TokenManager example_config \<and> WalletPrivateKey example_config \<noteq> []"
    using p [THEN conjunct2, THEN conjunct2, THEN conjunct2, THEN conjunct2, THEN conjunct1,
             THEN spec, THEN mp, OF called]
    by simp
  have trace: "snd ?F =
     [Scanned, ClaimCalled ''A1'', RefreshCalled (token_refresh (expired_cycle 0 [])),
      ClaimCalled ''A1'', Slept (60 * Second)]"
    by (simp add: processAirdrops_def expired_cycle_def NewService_def mark_claimed_def
        isAlreadyClaimed_def claimed_def example_airdrop_def example_config_def
        ShouldClaim_def ParseFloat_excerpt_def UpdatePriceData_def GetTokenPriceInfo_def
        NewPriceTracker_def clock_at_def handleClaimResult_def Let_def
        expired_error_auth refreshAuthToken_def)
  have history: "?R = (fst ?R, snd ?R)"
    by simp
  have cycle: "?C = (fst ?C, snd ?C)"
    by simp
  have before: "snd ?R =
     [Scanned, ClaimCalled ''A1'', RefreshCalled (token_refresh (expired_cycle 0 [])),
      ClaimCalled ''A1'', Slept (60 * Second), Slept Minute]"
    by (simp add: processAirdrops_def expired_cycle_def NewService_def mark_claimed_def
        isAlreadyClaimed_def claimed_def example_airdrop_def example_config_def
        ShouldClaim_def ParseFloat_excerpt_def UpdatePriceData_def GetTokenPriceInfo_def
        NewPriceTracker_def clock_at_def handleClaimResult_def Let_def
        expired_error_auth refreshAuthToken_def)
  have events: "snd ?C = [Scanned, ClaimCalled ''A2'', ClaimCalled ''A2'', Slept (60 * Second)]"
    by (simp add: processAirdrops_def expired_cycle_def NewService_def mark_claimed_def
        isAlreadyClaimed_def claimed_def example_airdrop_def example_config_def
        ShouldClaim_def ParseFloat_excerpt_def UpdatePriceData_def GetTokenPriceInfo_def
        NewPriceTracker_def clock_at_def handleClaimResult_def Let_def
        expired_error_auth refreshAuthToken_def
        Since_def Minute_def Second_def maxDuration_def minDuration_def)
  have "last_refreshed (snd ?R @ snd ?C) = lastTokenRefresh (fst ?C)"
    using auth_refresh_policy [OF history cycle] by blast
  then have "lastTokenRefresh (fst ?C) = Some 0"
    unfolding before events by (simp add: expired_cycle_def)
  with start err expired_error_auth throttle called trace before events show ?thesis
    by (intro conjI) simp_all
qed

text \<open>
  C7 with "at most one token refresh in 30 minutes, however many qualifying errors
  occur" does not hold when the refresh itself fails: two scans 90 seconds apart are
  refused, and config.RefreshAuthToken is called after each.
\<close>

theorem token_refresh_repeats_after_failure:
  "auth_related refused_error \<and>
   snd (run ParseFloat_excerpt example_config
          [Cycle (refused_cycle 0), Cycle (refused_cycle (90 * Second))] NewService) =
     [Scanned, RefreshCalled (token_refresh (refused_cycle 0)), Slept (30 * Second),
      Slept Minute,
      Scanned, RefreshCalled (token_refresh (refused_cycle (90 * Second))),
      Slept (30 * Second), Slept Minute] \<and>
   refresh (token_refresh (refused_cycle 0)) \<noteq> None \<and>
   at_check (token_refresh (refused_cycle (90 * Second))) -
     at_check (token_refresh (refused_cycle 0)) < 30 * Minute"
  by (simp add: processAirdrops_def refused_cycle_def NewService_def refused_error_auth
      refused_error_backoff refreshAuthToken_def example_config_def Minute_def Second_def)

end
